theory Spec2Isabelle
  imports Complex_Main
begin

section \<open>The flowchart editor: data model\<close>

text \<open>
  The flowchart editor keeps its state in module-level refs and mutates them from event
  handlers. The embedding follows the script of the editor function by function.

  JavaScript numbers are modelled as real numbers: every arithmetic operation is the exact
  one, rounding and overflow of IEEE doubles are not represented. The two places where the
  script can leave the finite numbers in this idealisation are written out: a division whose
  divisor may be zero, and the constant \<open>Number.POSITIVE_INFINITY\<close> of the
  rectangle branch of \<open>nodeBoundaryPoint\<close>. A result that would hold
  \<open>Infinity\<close> or \<open>NaN\<close> is the error value \<open>NonFinite\<close>. Reading a field
  of \<open>undefined\<close> throws; that is the error value \<open>TypeError\<close>.

  The types \<open>FlowNode\<close> and \<open>FlowEdge\<close> are imported by the script from the
  project store; their fields are taken from the way the script reads and writes them.
  Optional fields (\<open>bendX?\<close>, \<open>lineStyle?\<close>, ...) are options, \<open>undefined\<close>
  being \<open>None\<close>.
\<close>

datatype FlowNodeType = Start | Process | Decision | Io | End

record FlowNode =
  nid :: string
  ntype :: FlowNodeType
  ntext :: string
  nx :: real
  ny :: real
  nwidth :: real
  nheight :: real

datatype LineStyle = Solid | Dashed

record FlowEdge =
  eid :: string
  sourceId :: string
  targetId :: string
  label :: "string option"
  labelColor :: "string option"
  labelFontSize :: "real option"
  labelBold :: "bool option"
  lineStyle :: "LineStyle option"
  lineColor :: "string option"
  lineWidth :: "real option"
  bendX :: "real option"
  bendY :: "real option"

record DiagramSnapshot =
  snap_nodes :: "FlowNode list"
  snap_edges :: "FlowEdge list"

record EdgePath =
  ep_sx :: real
  ep_sy :: real
  ep_bx :: real
  ep_by :: real
  ep_tx :: real
  ep_ty :: real

record point =
  px :: real
  py :: real

record hit =
  hx :: real
  hy :: real
  ht :: real

datatype error = NonFinite | TypeError

section \<open>Geometry kernel\<close>

text \<open>\<open>Math.hypot\<close> of two arguments.\<close>

definition hypot :: "real \<Rightarrow> real \<Rightarrow> real" where
  "hypot a b = sqrt (a * a + b * b)"

text \<open>\<open>Math.round\<close>: the nearest integer, a tie going up.\<close>

definition js_round :: "real \<Rightarrow> real" where
  "js_round v = of_int \<lfloor>v + 1 / 2\<rfloor>"

definition pointToSegmentDistance ::
  "real \<Rightarrow> real \<Rightarrow> real \<Rightarrow> real \<Rightarrow> real \<Rightarrow> real \<Rightarrow> real" where
  "pointToSegmentDistance p_x p_y x1 y1 x2 y2 =
     (let A = p_x - x1; B = p_y - y1; C = x2 - x1; D = y2 - y1;
          dot = A * C + B * D;
          lenSq = C * C + D * D;
          t = (if lenSq = 0 then 0 else max 0 (min 1 (dot / lenSq)));
          ex = x1 + t * C;
          ey = y1 + t * D
      in hypot (p_x - ex) (p_y - ey))"

definition raySegmentIntersection ::
  "real \<Rightarrow> real \<Rightarrow> real \<Rightarrow> real \<Rightarrow> real \<Rightarrow> real \<Rightarrow> real \<Rightarrow> real \<Rightarrow> hit option" where
  "raySegmentIntersection ox oy dx dy ax ay b_x b_y =
     (let s_x = b_x - ax; s_y = b_y - ay;
          cross = dx * s_y - dy * s_x
      in if \<bar>cross\<bar> < 1 / 10 ^ 7 then None
         else
           (let qpx = ax - ox; qpy = ay - oy;
                t = (qpx * s_y - qpy * s_x) / cross;
                u = (qpx * dy - qpy * dx) / cross
            in if t \<ge> 0 \<and> u \<ge> 0 \<and> u \<le> 1
               then Some \<lparr>hx = ox + dx * t, hy = oy + dy * t, ht = t\<rparr>
               else None))"

text \<open>The four corners of the slanted quadrilateral of an \<open>io\<close> node (\<open>slant = 20\<close>).\<close>

definition io_points :: "FlowNode \<Rightarrow> point list" where
  "io_points node =
     (let hw = nwidth node / 2; hh = nheight node / 2; slant = 20
      in [\<lparr>px = nx node - hw + slant, py = ny node - hh\<rparr>,
          \<lparr>px = nx node + hw, py = ny node - hh\<rparr>,
          \<lparr>px = nx node + hw - slant, py = ny node + hh\<rparr>,
          \<lparr>px = nx node - hw, py = ny node + hh\<rparr>])"

text \<open>
  The body of the loop over the corners in the \<open>io\<close> branch: \<open>hit\<close> is the
  intersection with the side from corner \<open>i\<close> to corner \<open>(i + 1) % points.length\<close>,
  and \<open>if (hit && (!best || hit.t < best.t)) best = hit\<close>.
\<close>

definition io_hit :: "FlowNode \<Rightarrow> real \<Rightarrow> real \<Rightarrow> point list \<Rightarrow> nat \<Rightarrow> hit option" where
  "io_hit node dx dy points i =
     (let a = points ! i;
          b = points ! ((i + 1) mod length points)
      in raySegmentIntersection (nx node) (ny node) dx dy (px a) (py a) (px b) (py b))"

definition io_step :: "FlowNode \<Rightarrow> real \<Rightarrow> real \<Rightarrow> point list \<Rightarrow> hit option \<Rightarrow> nat \<Rightarrow> hit option" where
  "io_step node dx dy points best i =
     (case io_hit node dx dy points i of
        None \<Rightarrow> best
      | Some h \<Rightarrow>
          (case best of
             None \<Rightarrow> Some h
           | Some bst \<Rightarrow> if ht h < ht bst then Some h else best))"

definition io_best :: "FlowNode \<Rightarrow> real \<Rightarrow> real \<Rightarrow> hit option" where
  "io_best node dx dy =
     (let points = io_points node
      in foldl (io_step node dx dy points) None [0 ..< length points])"

text \<open>
  The closing rectangle branch. \<open>tx\<close> and \<open>ty\<close> are \<open>None\<close> where the script
  takes \<open>Number.POSITIVE_INFINITY\<close>; \<open>Math.min\<close> of the two is infinite only when
  both are, and the product with it is then not a finite number.
\<close>

definition min_inf :: "real option \<Rightarrow> real option \<Rightarrow> real option" where
  "min_inf a b =
     (case a of
        None \<Rightarrow> b
      | Some u \<Rightarrow> (case b of None \<Rightarrow> Some u | Some v \<Rightarrow> Some (min u v)))"

definition rect_boundary :: "FlowNode \<Rightarrow> real \<Rightarrow> real \<Rightarrow> error + point" where
  "rect_boundary node dx dy =
     (let hw = nwidth node / 2; hh = nheight node / 2;
          t_x = (if \<bar>dx\<bar> < 1 / 10 ^ 7 then None else Some (hw / \<bar>dx\<bar>));
          t_y = (if \<bar>dy\<bar> < 1 / 10 ^ 7 then None else Some (hh / \<bar>dy\<bar>))
      in case min_inf t_x t_y of
           None \<Rightarrow> Inl NonFinite
         | Some t \<Rightarrow> Inr \<lparr>px = nx node + dx * t, py = ny node + dy * t\<rparr>)"

text \<open>
  In the ellipse and the diamond branch the script divides by \<open>hw\<close> and \<open>hh\<close>
  unguarded. With a half extent of zero the quotient is \<open>Infinity\<close> or \<open>NaN\<close>, the
  sum \<open>d\<close> is \<open>\<plusminus>Infinity\<close> or \<open>NaN\<close>, and \<open>t\<close> is \<open>0\<close> either
  way (\<open>1 / Infinity\<close>, or the else branch of \<open>d > 0\<close>); the model says so, since a
  division by zero is \<open>0\<close> in HOL.
\<close>

definition ellipse_t :: "real \<Rightarrow> real \<Rightarrow> real \<Rightarrow> real \<Rightarrow> real" where
  "ellipse_t dx dy hw hh =
     (if hw = 0 \<or> hh = 0 then 0
      else (let d = (dx * dx) / (hw * hw) + (dy * dy) / (hh * hh)
            in if d > 0 then 1 / sqrt d else 0))"

definition diamond_t :: "real \<Rightarrow> real \<Rightarrow> real \<Rightarrow> real \<Rightarrow> real" where
  "diamond_t dx dy hw hh =
     (if hw = 0 \<or> hh = 0 then 0
      else (let d = \<bar>dx\<bar> / hw + \<bar>dy\<bar> / hh
            in if d > 0 then 1 / d else 0))"

definition nodeBoundaryPoint :: "FlowNode \<Rightarrow> real \<Rightarrow> real \<Rightarrow> error + point" where
  "nodeBoundaryPoint node towardX towardY =
     (let vx = towardX - nx node;
          vy = towardY - ny node;
          len = hypot vx vy
      in if len < 1 / 10 ^ 6 then Inr \<lparr>px = nx node, py = ny node\<rparr>
         else
           (let dx = vx / len; dy = vy / len;
                hw = nwidth node / 2; hh = nheight node / 2
            in if ntype node = Start \<or> ntype node = End then
                 (let t = ellipse_t dx dy hw hh
                  in Inr \<lparr>px = nx node + dx * t, py = ny node + dy * t\<rparr>)
               else if ntype node = Decision then
                 (let t = diamond_t dx dy hw hh
                  in Inr \<lparr>px = nx node + dx * t, py = ny node + dy * t\<rparr>)
               else
                 (case (if ntype node = Io then io_best node dx dy else None) of
                    Some best \<Rightarrow> Inr \<lparr>px = hx best, py = hy best\<rparr>
                  | None \<Rightarrow> rect_boundary node dx dy)))"

definition pushPointOutward :: "point \<Rightarrow> real \<Rightarrow> real \<Rightarrow> real \<Rightarrow> point" where
  "pushPointOutward p towardX towardY distance =
     (let dx = towardX - px p; dy = towardY - py p; len = hypot dx dy
      in if len < 1 / 10 ^ 6 then p
         else \<lparr>px = px p + (dx / len) * distance, py = py p + (dy / len) * distance\<rparr>)"

section \<open>Outlines of the four shapes\<close>









text \<open>
  The part of \<open>nodeBoundaryPoint\<close> after the direction has been normalised, as a
  function of the unit direction.
\<close>

definition boundary_along :: "FlowNode \<Rightarrow> real \<Rightarrow> real \<Rightarrow> error + point" where
  "boundary_along node dx dy =
     (let hw = nwidth node / 2; hh = nheight node / 2
      in if ntype node = Start \<or> ntype node = End then
           (let t = ellipse_t dx dy hw hh
            in Inr \<lparr>px = nx node + dx * t, py = ny node + dy * t\<rparr>)
         else if ntype node = Decision then
           (let t = diamond_t dx dy hw hh
            in Inr \<lparr>px = nx node + dx * t, py = ny node + dy * t\<rparr>)
         else
           (case (if ntype node = Io then io_best node dx dy else None) of
              Some best \<Rightarrow> Inr \<lparr>px = hx best, py = hy best\<rparr>
            | None \<Rightarrow> rect_boundary node dx dy))"





section \<open>Editor state\<close>

text \<open>
  The refs of the script, one field each and under the same names. Three fields stand for
  the surroundings the script reads: whether \<open>store.activeProject\<close> is set, the
  top-left corner of the canvas (\<open>None\<close> while \<open>canvasRef\<close> is unset), and the id
  generator of the store. The store builds an id from the prefix, the clock and a random
  number; the model takes the part after the prefix from \<open>idSupply\<close>, the
  \<open>idCount\<close>-th call getting \<open>idSupply idCount\<close>.
\<close>

datatype tool = Select | Connect | Place FlowNodeType

record marquee_state =
  m_active :: bool
  m_startX :: real
  m_startY :: real
  m_endX :: real
  m_endY :: real
  m_append :: bool

record editor =
  selectedTool :: tool
  selectedNodeId :: string
  selectedNodeIds :: "string list"
  selectedEdgeId :: string
  connectFromId :: string
  draggingNodeId :: string
  draggingBendEdgeId :: string
  draggingMoved :: bool
  draggingGroupIds :: "string list"
  groupDragStart :: "string \<Rightarrow> point option"
  dragStartPoint :: point
  panning :: bool
  panStart :: point
  pan :: point
  scale :: real
  marquee :: marquee_state
  nodes :: "FlowNode list"
  edges :: "FlowEdge list"
  history :: "DiagramSnapshot list"
  historyIndex :: int
  historyReady :: bool
  clipboardData :: "DiagramSnapshot option"
  pasteCount :: int
  activeProject :: bool
  canvasOrigin :: "point option"
  idSupply :: "nat \<Rightarrow> string"
  idCount :: nat

definition generateId :: "string \<Rightarrow> editor \<Rightarrow> string \<times> editor" where
  "generateId prefix s =
     (prefix @ ''_'' @ idSupply s (idCount s), s\<lparr>idCount := Suc (idCount s)\<rparr>)"

text \<open>
  \<open>cloneDiagram\<close> copies the diagram through JSON. Values of HOL are never shared, so
  the copy is the value itself; a field that is \<open>undefined\<close> is dropped by JSON and
  is \<open>None\<close> before and after.
\<close>

definition cloneDiagram :: "editor \<Rightarrow> DiagramSnapshot" where
  "cloneDiagram s = \<lparr>snap_nodes = nodes s, snap_edges = edges s\<rparr>"

definition replaceDiagram :: "FlowNode list \<Rightarrow> FlowEdge list \<Rightarrow> editor \<Rightarrow> editor" where
  "replaceDiagram nextNodes nextEdges s = s\<lparr>nodes := nextNodes, edges := nextEdges\<rparr>"

text \<open>
  \<open>applySnapshot\<close> returns at once without a project; otherwise it reads the fields
  of the snapshot, which throws when the snapshot is \<open>undefined\<close> (\<open>None\<close>).
\<close>

definition applySnapshot :: "DiagramSnapshot option \<Rightarrow> editor \<Rightarrow> error + editor" where
  "applySnapshot snapshot s =
     (if \<not> activeProject s then Inr s
      else case snapshot of
             None \<Rightarrow> Inl TypeError
           | Some snap \<Rightarrow>
               Inr (s\<lparr>nodes := snap_nodes snap, edges := snap_edges snap,
                       selectedNodeId := [], selectedNodeIds := [],
                       selectedEdgeId := [], connectFromId := []\<rparr>))"

definition setSingleNodeSelection :: "string \<Rightarrow> editor \<Rightarrow> editor" where
  "setSingleNodeSelection i s =
     s\<lparr>selectedNodeId := i, selectedNodeIds := [i], selectedEdgeId := []\<rparr>"

text \<open>\<open>ids[0] || ''\<close>: the first id, or the empty string when there is none.\<close>

definition setNodeSelection :: "string list \<Rightarrow> editor \<Rightarrow> editor" where
  "setNodeSelection ids s =
     s\<lparr>selectedNodeIds := ids,
        selectedNodeId := (case ids of [] \<Rightarrow> [] | i # _ \<Rightarrow> i),
        selectedEdgeId := []\<rparr>"

definition toggleNodeSelection :: "string \<Rightarrow> editor \<Rightarrow> editor" where
  "toggleNodeSelection i s =
     (if i \<in> set (selectedNodeIds s)
      then setNodeSelection (filter (\<lambda>n. n \<noteq> i) (selectedNodeIds s)) s
      else setNodeSelection (selectedNodeIds s @ [i]) s)"

section \<open>History\<close>

definition resetHistory :: "editor \<Rightarrow> editor" where
  "resetHistory s = s\<lparr>history := [cloneDiagram s], historyIndex := 0, historyReady := True\<rparr>"

text \<open>
  \<open>xs.slice(0, e)\<close>: a negative \<open>e\<close> counts from the end, and the bounds are
  clamped to the array.
\<close>

definition slice0 :: "'a list \<Rightarrow> int \<Rightarrow> 'a list" where
  "slice0 xs e = take (nat (if e < 0 then max 0 (int (length xs) + e) else e)) xs"

text \<open>\<open>xs[i]\<close>, which is \<open>undefined\<close> outside the array.\<close>

definition js_nth :: "'a list \<Rightarrow> int \<Rightarrow> 'a option" where
  "js_nth xs i = (if 0 \<le> i \<and> i < int (length xs) then Some (xs ! nat i) else None)"

definition commitHistory :: "editor \<Rightarrow> editor" where
  "commitHistory s =
     (if \<not> historyReady s then s
      else
        (let snap = cloneDiagram s;
             h1 = slice0 (history s) (historyIndex s + 1);
             h2 = h1 @ [snap];
             h3 = (if length h2 > 80 then tl h2 else h2)
         in s\<lparr>history := h3, historyIndex := int (length h3) - 1\<rparr>))"

definition canUndo :: "editor \<Rightarrow> bool" where
  "canUndo s = (historyIndex s > 0)"

definition canRedo :: "editor \<Rightarrow> bool" where
  "canRedo s = (historyIndex s \<ge> 0 \<and> historyIndex s < int (length (history s)) - 1)"

definition undo :: "editor \<Rightarrow> error + editor" where
  "undo s =
     (if \<not> canUndo s then Inr s
      else
        (let s1 = s\<lparr>historyIndex := historyIndex s - 1\<rparr>
         in applySnapshot (js_nth (history s1) (historyIndex s1)) s1))"

definition redo :: "editor \<Rightarrow> error + editor" where
  "redo s =
     (if \<not> canRedo s then Inr s
      else
        (let s1 = s\<lparr>historyIndex := historyIndex s + 1\<rparr>
         in applySnapshot (js_nth (history s1) (historyIndex s1)) s1))"

text \<open>
  A run of edits, each followed by its commit: the diagram is replaced by the next one of
  the list and \<open>commitHistory\<close> is called.
\<close>

fun commits :: "editor \<Rightarrow> DiagramSnapshot list \<Rightarrow> editor" where
  "commits s [] = s"
| "commits s (d # ds) =
     commits (commitHistory (replaceDiagram (snap_nodes d) (snap_edges d) s)) ds"

text \<open>The snapshots kept when \<open>xs\<close> have been stored one by one: the last 80.\<close>

definition last80 :: "'a list \<Rightarrow> 'a list" where
  "last80 xs = drop (length xs - 80) xs"

text \<open>
  The state a run of commits starts from has called \<open>resetHistory\<close>; \<open>committed s xs\<close>
  says that \<open>s\<close> is what the history manager holds when the diagrams \<open>xs\<close> have been
  stored in this order, the last of them being the live diagram.
\<close>

definition committed :: "editor \<Rightarrow> DiagramSnapshot list \<Rightarrow> bool" where
  "committed s xs =
     (historyReady s \<and> xs \<noteq> [] \<and> history s = last80 xs
      \<and> historyIndex s = int (length (history s)) - 1 \<and> cloneDiagram s = last xs)"

text \<open>The values the refs are created with, in a session with a project and a canvas.\<close>

definition sample_ids :: "nat \<Rightarrow> string" where
  "sample_ids k = replicate (Suc k) (CHR ''i'')"

definition initial_editor :: editor where
  "initial_editor =
     \<lparr>selectedTool = Select, selectedNodeId = [], selectedNodeIds = [], selectedEdgeId = [],
      connectFromId = [], draggingNodeId = [], draggingBendEdgeId = [], draggingMoved = False,
      draggingGroupIds = [], groupDragStart = (\<lambda>_. None), dragStartPoint = \<lparr>px = 0, py = 0\<rparr>,
      panning = False, panStart = \<lparr>px = 0, py = 0\<rparr>, pan = \<lparr>px = 0, py = 0\<rparr>, scale = 1,
      marquee = \<lparr>m_active = False, m_startX = 0, m_startY = 0, m_endX = 0, m_endY = 0,
                  m_append = False\<rparr>,
      nodes = [], edges = [], history = [], historyIndex = - 1, historyReady = False,
      clipboardData = None, pasteCount = 0, activeProject = True,
      canvasOrigin = Some \<lparr>px = 0, py = 0\<rparr>, idSupply = sample_ids, idCount = 0\<rparr>"

definition sample_node :: "string \<Rightarrow> FlowNodeType \<Rightarrow> real \<Rightarrow> real \<Rightarrow> FlowNode" where
  "sample_node i k x y =
     \<lparr>nid = i, ntype = k, ntext = ''step'', nx = x, ny = y, nwidth = 140, nheight = 64\<rparr>"

definition sample_edge :: "string \<Rightarrow> string \<Rightarrow> string \<Rightarrow> FlowEdge" where
  "sample_edge i a b =
     \<lparr>eid = i, sourceId = a, targetId = b, label = Some [], labelColor = None,
      labelFontSize = None, labelBold = None, lineStyle = None, lineColor = None,
      lineWidth = None, bendX = None, bendY = None\<rparr>"

definition sample_diagram :: DiagramSnapshot where
  "sample_diagram =
     \<lparr>snap_nodes = [sample_node ''a'' Start 100 100, sample_node ''b'' Process 300 100],
      snap_edges = [sample_edge ''e'' ''a'' ''b'']\<rparr>"

section \<open>Edge paths and hit testing\<close>

text \<open>
  \<open>edgePath\<close> answers \<open>null\<close> (here \<open>Inr None\<close>) when an end of the edge names no
  node. \<open>edge.bendX ?? v\<close> is the stored bend when there is one and \<open>v\<close> otherwise.
  A boundary point that is not finite makes the whole path \<open>Inl NonFinite\<close>.
\<close>

definition edgePath :: "FlowNode list \<Rightarrow> FlowEdge \<Rightarrow> error + EdgePath option" where
  "edgePath ns edge =
     (case find (\<lambda>n. nid n = sourceId edge) ns of
        None \<Rightarrow> Inr None
      | Some source \<Rightarrow>
     (case find (\<lambda>n. nid n = targetId edge) ns of
        None \<Rightarrow> Inr None
      | Some target \<Rightarrow>
     (let rawBx = (case bendX edge of Some b \<Rightarrow> b | None \<Rightarrow> (nx source + nx target) / 2);
          rawBy = (case bendY edge of Some b \<Rightarrow> b | None \<Rightarrow> (ny source + ny target) / 2)
      in case nodeBoundaryPoint source rawBx rawBy of
           Inl e \<Rightarrow> Inl e
         | Inr preS \<Rightarrow>
      (case nodeBoundaryPoint target rawBx rawBy of
           Inl e \<Rightarrow> Inl e
         | Inr preT \<Rightarrow>
      (let b_x = (case bendX edge of Some b \<Rightarrow> b | None \<Rightarrow> (px preS + px preT) / 2);
           b_y = (case bendY edge of Some b \<Rightarrow> b | None \<Rightarrow> (py preS + py preT) / 2)
       in case nodeBoundaryPoint source b_x b_y of
            Inl e \<Rightarrow> Inl e
          | Inr bs \<Rightarrow>
       (case nodeBoundaryPoint target b_x b_y of
            Inl e \<Rightarrow> Inl e
          | Inr bt \<Rightarrow>
       (let s = pushPointOutward bs b_x b_y 2;
            t = pushPointOutward bt b_x b_y 2
        in Inr (Some \<lparr>ep_sx = px s, ep_sy = py s, ep_bx = b_x, ep_by = b_y,
                        ep_tx = px t, ep_ty = py t\<rparr>))))))))"

text \<open>
  The two hit tests walk the edges from the last to the first. The script returns the edge
  object, which the caller may go on to mutate; the model returns its index in the array.
  The threshold is a constant divided by the scale, which is not finite for a scale of 0.
\<close>

fun getEdgeAt_loop :: "FlowNode list \<Rightarrow> FlowEdge list \<Rightarrow> real \<Rightarrow> real \<Rightarrow> real \<Rightarrow> nat \<Rightarrow> error + nat option" where
  "getEdgeAt_loop ns es hitDistance x y 0 = Inr None"
| "getEdgeAt_loop ns es hitDistance x y (Suc i) =
     (case edgePath ns (es ! i) of
        Inl e \<Rightarrow> Inl e
      | Inr None \<Rightarrow> getEdgeAt_loop ns es hitDistance x y i
      | Inr (Some p) \<Rightarrow>
          (let d1 = pointToSegmentDistance x y (ep_sx p) (ep_sy p) (ep_bx p) (ep_by p);
               d2 = pointToSegmentDistance x y (ep_bx p) (ep_by p) (ep_tx p) (ep_ty p)
           in if min d1 d2 \<le> hitDistance then Inr (Some i)
              else getEdgeAt_loop ns es hitDistance x y i))"

definition getEdgeAt :: "editor \<Rightarrow> real \<Rightarrow> real \<Rightarrow> error + nat option" where
  "getEdgeAt s x y =
     (if scale s = 0 then Inl NonFinite
      else getEdgeAt_loop (nodes s) (edges s) (8 / scale s) x y (length (edges s)))"

fun getBendHandleEdgeAt_loop :: "FlowNode list \<Rightarrow> FlowEdge list \<Rightarrow> real \<Rightarrow> real \<Rightarrow> real \<Rightarrow> nat \<Rightarrow> error + nat option" where
  "getBendHandleEdgeAt_loop ns es radius x y 0 = Inr None"
| "getBendHandleEdgeAt_loop ns es radius x y (Suc i) =
     (case edgePath ns (es ! i) of
        Inl e \<Rightarrow> Inl e
      | Inr None \<Rightarrow> getBendHandleEdgeAt_loop ns es radius x y i
      | Inr (Some p) \<Rightarrow>
          (if hypot (x - ep_bx p) (y - ep_by p) \<le> radius then Inr (Some i)
           else getBendHandleEdgeAt_loop ns es radius x y i))"

definition getBendHandleEdgeAt :: "editor \<Rightarrow> real \<Rightarrow> real \<Rightarrow> error + nat option" where
  "getBendHandleEdgeAt s x y =
     (if scale s = 0 then Inl NonFinite
      else getBendHandleEdgeAt_loop (nodes s) (edges s) (10 / scale s) x y (length (edges s)))"

text \<open>
  \<open>pointInPolygon\<close>: even-odd ray casting, \<open>j\<close> running one corner behind \<open>i\<close>.
  The divisor \<open>yj - yi || 1\<close> is 1 when the difference is 0.
\<close>

definition polygon_step :: "point \<Rightarrow> point list \<Rightarrow> bool \<Rightarrow> nat \<Rightarrow> bool" where
  "polygon_step p points inside i =
     (let j = (if i = 0 then length points - 1 else i - 1);
          xi = px (points ! i); yi = py (points ! i);
          xj = px (points ! j); yj = py (points ! j);
          intersect = ((yi > py p) \<noteq> (yj > py p)
                       \<and> px p < ((xj - xi) * (py p - yi)) / (if yj - yi = 0 then 1 else yj - yi) + xi)
      in if intersect then \<not> inside else inside)"

definition pointInPolygon :: "point \<Rightarrow> point list \<Rightarrow> bool" where
  "pointInPolygon p points = foldl (polygon_step p points) False [0 ..< length points]"

text \<open>
  \<open>containsPoint\<close>. In the ellipse and the diamond test a half extent of zero makes the
  quotient \<open>Infinity\<close> or \<open>NaN\<close> and the comparison false.
\<close>

definition containsPoint :: "FlowNode \<Rightarrow> real \<Rightarrow> real \<Rightarrow> bool" where
  "containsPoint node x y =
     (let dx = x - nx node; dy = y - ny node;
          hw = nwidth node / 2; hh = nheight node / 2
      in if ntype node = Start \<or> ntype node = End then
           hw \<noteq> 0 \<and> hh \<noteq> 0 \<and> (dx * dx) / (hw * hw) + (dy * dy) / (hh * hh) \<le> 1
         else if ntype node = Decision then
           hw \<noteq> 0 \<and> hh \<noteq> 0 \<and> \<bar>dx\<bar> / hw + \<bar>dy\<bar> / hh \<le> 1
         else if ntype node = Io then pointInPolygon \<lparr>px = x, py = y\<rparr> (io_points node)
         else \<bar>dx\<bar> \<le> hw \<and> \<bar>dy\<bar> \<le> hh)"

fun getNodeAt_loop :: "FlowNode list \<Rightarrow> real \<Rightarrow> real \<Rightarrow> nat \<Rightarrow> FlowNode option" where
  "getNodeAt_loop ns x y 0 = None"
| "getNodeAt_loop ns x y (Suc i) =
     (if containsPoint (ns ! i) x y then Some (ns ! i) else getNodeAt_loop ns x y i)"

definition getNodeAt :: "editor \<Rightarrow> real \<Rightarrow> real \<Rightarrow> FlowNode option" where
  "getNodeAt s x y = getNodeAt_loop (nodes s) x y (length (nodes s))"

text \<open>\<open>applySnap\<close>: the grid first, then every node but the moving one, in order.\<close>

definition snap_step :: "string \<Rightarrow> point \<Rightarrow> FlowNode \<Rightarrow> point" where
  "snap_step movingId acc node =
     (if nid node = movingId then acc
      else
        (let x1 = (if \<bar>nx node - px acc\<bar> \<le> 8 then nx node else px acc);
             y1 = (if \<bar>ny node - py acc\<bar> \<le> 8 then ny node else py acc)
         in \<lparr>px = x1, py = y1\<rparr>))"

definition applySnap :: "FlowNode list \<Rightarrow> real \<Rightarrow> real \<Rightarrow> string \<Rightarrow> point" where
  "applySnap ns rawX rawY movingId =
     foldl (snap_step movingId)
       \<lparr>px = js_round (rawX / 20) * 20, py = js_round (rawY / 20) * 20\<rparr> ns"

record rect =
  r_x1 :: real
  r_y1 :: real
  r_x2 :: real
  r_y2 :: real

definition marqueeRect :: "editor \<Rightarrow> rect" where
  "marqueeRect s =
     (let m = marquee s
      in \<lparr>r_x1 = min (m_startX m) (m_endX m), r_y1 = min (m_startY m) (m_endY m),
          r_x2 = max (m_startX m) (m_endX m), r_y2 = max (m_startY m) (m_endY m)\<rparr>)"

definition nodeIntersectsRect :: "FlowNode \<Rightarrow> rect \<Rightarrow> bool" where
  "nodeIntersectsRect node r =
     (let left = nx node - nwidth node / 2; right = nx node + nwidth node / 2;
          top = ny node - nheight node / 2; bottom = ny node + nheight node / 2
      in \<not> (right < r_x1 r \<or> left > r_x2 r \<or> bottom < r_y1 r \<or> top > r_y2 r))"

definition toCanvasPoint :: "editor \<Rightarrow> real \<Rightarrow> real \<Rightarrow> error + point" where
  "toCanvasPoint s clientX clientY =
     (case canvasOrigin s of
        None \<Rightarrow> Inr \<lparr>px = 0, py = 0\<rparr>
      | Some origin \<Rightarrow>
          if scale s = 0 then Inl NonFinite
          else Inr \<lparr>px = (clientX - px origin - px (pan s)) / scale s,
                    py = (clientY - py origin - py (pan s)) / scale s\<rparr>)"

text \<open>An edge is dangling when one of its ends names no node.\<close>

definition dangling :: "FlowNode list \<Rightarrow> FlowEdge \<Rightarrow> bool" where
  "dangling ns edge =
     (find (\<lambda>n. nid n = sourceId edge) ns = None \<or> find (\<lambda>n. nid n = targetId edge) ns = None)"

section \<open>Drawing the edges\<close>

text \<open>
  What \<open>draw\<close> puts on the canvas for the diagram, as the list of its drawing calls:
  first the polyline, label and bend handle of every edge, then the nodes, then the arrow
  heads. The background grid, the marquee and the mini map, which do not read the edges, are
  left out, and \<open>drawNode\<close> and \<open>drawArrow\<close> are recorded as one call each.
  \<open>v || d\<close> is \<open>d\<close> when \<open>v\<close> is undefined, the empty string or 0.
\<close>

datatype draw_op =
    StrokePath EdgePath string real bool
  | FillText string real real string string real
  | FillHandle real real
  | DrawNode FlowNode bool bool
  | DrawArrow real real real real string

definition str_or :: "string option \<Rightarrow> string \<Rightarrow> string" where
  "str_or v d = (case v of None \<Rightarrow> d | Some w \<Rightarrow> if w = [] then d else w)"

definition num_or :: "real option \<Rightarrow> real \<Rightarrow> real" where
  "num_or v d = (case v of None \<Rightarrow> d | Some w \<Rightarrow> if w = 0 then d else w)"

definition draw_edge :: "FlowNode list \<Rightarrow> string \<Rightarrow> FlowEdge \<Rightarrow> error + draw_op list" where
  "draw_edge ns selEdgeId edge =
     (case edgePath ns edge of
        Inl e \<Rightarrow> Inl e
      | Inr None \<Rightarrow> Inr []
      | Inr (Some p) \<Rightarrow>
          (let selected = (eid edge = selEdgeId);
               baseColor = str_or (lineColor edge) ''#334155'';
               strokeColor = (if selected then ''#a78bfa'' else baseColor);
               baseWidth = num_or (lineWidth edge) (14 / 10);
               width = (if selected then max (21 / 10) baseWidth else baseWidth);
               stroke = [StrokePath p strokeColor width (lineStyle edge = Some Dashed)];
               text = (if str_or (label edge) [] \<noteq> [] then
                         [FillText (str_or (label edge) []) (ep_bx p) (ep_by p - 8)
                            (str_or (labelColor edge) ''#94a3b8'')
                            (if labelBold edge = Some True then ''700'' else ''400'')
                            (max 10 (min 36 (num_or (labelFontSize edge) 12)))]
                       else []);
               handle = (if selected then [FillHandle (ep_bx p) (ep_by p)] else [])
           in Inr (stroke @ text @ handle)))"

definition draw_arrow :: "FlowNode list \<Rightarrow> string \<Rightarrow> FlowEdge \<Rightarrow> error + draw_op list" where
  "draw_arrow ns selEdgeId edge =
     (case edgePath ns edge of
        Inl e \<Rightarrow> Inl e
      | Inr None \<Rightarrow> Inr []
      | Inr (Some p) \<Rightarrow>
          (let selected = (eid edge = selEdgeId);
               baseColor = str_or (lineColor edge) ''#334155'';
               strokeColor = (if selected then ''#a78bfa'' else baseColor)
           in Inr [DrawArrow (ep_bx p) (ep_by p) (ep_tx p) (ep_ty p) strokeColor]))"

text \<open>\<open>edges.forEach\<close> with a body that draws: the calls of all edges, in order.\<close>

fun for_each_edge :: "(FlowEdge \<Rightarrow> error + draw_op list) \<Rightarrow> FlowEdge list \<Rightarrow> error + draw_op list" where
  "for_each_edge f [] = Inr []"
| "for_each_edge f (e # es) =
     (case f e of
        Inl err \<Rightarrow> Inl err
      | Inr ops \<Rightarrow>
          (case for_each_edge f es of
             Inl err \<Rightarrow> Inl err
           | Inr rest \<Rightarrow> Inr (ops @ rest)))"

definition draw :: "editor \<Rightarrow> error + draw_op list" where
  "draw s =
     (case for_each_edge (draw_edge (nodes s) (selectedEdgeId s)) (edges s) of
        Inl err \<Rightarrow> Inl err
      | Inr lines \<Rightarrow>
          (case for_each_edge (draw_arrow (nodes s) (selectedEdgeId s)) (edges s) of
             Inl err \<Rightarrow> Inl err
           | Inr arrows \<Rightarrow>
               Inr (lines
                    @ map (\<lambda>n. DrawNode n (nid n \<in> set (selectedNodeIds s))
                                   (nid n = connectFromId s)) (nodes s)
                    @ arrows)))"

text \<open>The tests the two hit loops make on one edge.\<close>

definition edge_hit :: "FlowNode list \<Rightarrow> real \<Rightarrow> real \<Rightarrow> real \<Rightarrow> FlowEdge \<Rightarrow> bool" where
  "edge_hit ns hitDistance x y edge =
     (case edgePath ns edge of
        Inr (Some p) \<Rightarrow>
          min (pointToSegmentDistance x y (ep_sx p) (ep_sy p) (ep_bx p) (ep_by p))
              (pointToSegmentDistance x y (ep_bx p) (ep_by p) (ep_tx p) (ep_ty p)) \<le> hitDistance
      | _ \<Rightarrow> False)"

definition bend_hit :: "FlowNode list \<Rightarrow> real \<Rightarrow> real \<Rightarrow> real \<Rightarrow> FlowEdge \<Rightarrow> bool" where
  "bend_hit ns radius x y edge =
     (case edgePath ns edge of
        Inr (Some p) \<Rightarrow> hypot (x - ep_bx p) (y - ep_by p) \<le> radius
      | _ \<Rightarrow> False)"

text \<open>The editor without its dangling edges.\<close>

definition without_dangling :: "editor \<Rightarrow> editor" where
  "without_dangling s = s\<lparr>edges := filter (\<lambda>e. \<not> dangling (nodes s) e) (edges s)\<rparr>"

text \<open>
  A sample state: an ellipse and a rectangle joined by an edge, and one more edge whose
  target names no node.
\<close>

definition dangling_editor :: editor where
  "dangling_editor =
     initial_editor\<lparr>nodes := snap_nodes sample_diagram,
                     edges := [sample_edge ''e'' ''a'' ''b'', sample_edge ''d'' ''a'' ''zz'']\<rparr>"



section \<open>Mouse and keyboard handlers\<close>

definition nodeSize :: "FlowNodeType \<Rightarrow> real \<times> real" where
  "nodeSize k = (if k = Decision then (140, 90) else if k = Io then (150, 70) else (140, 64))"

text \<open>The default texts, as the bytes of their UTF-8 encoding.\<close>

definition defaultText :: "FlowNodeType \<Rightarrow> string" where
  "defaultText k =
     (case k of
        Start \<Rightarrow> [CHR 0xE5, CHR 0xBC, CHR 0x80, CHR 0xE5, CHR 0xA7, CHR 0x8B]
      | Process \<Rightarrow> [CHR 0xE5, CHR 0xA4, CHR 0x84, CHR 0xE7, CHR 0x90, CHR 0x86, CHR 0xE6, CHR 0xAD,
                      CHR 0xA5, CHR 0xE9, CHR 0xAA, CHR 0xA4]
      | Decision \<Rightarrow> [CHR 0xE6, CHR 0x9D, CHR 0xA1, CHR 0xE4, CHR 0xBB, CHR 0xB6, CHR 0xE5, CHR 0x88,
                       CHR 0xA4, CHR 0xE6, CHR 0x96, CHR 0xAD]
      | Io \<Rightarrow> [CHR 0xE8, CHR 0xBE, CHR 0x93, CHR 0xE5, CHR 0x85, CHR 0xA5, CHR 0x2F, CHR 0xE8,
                 CHR 0xBE, CHR 0x93, CHR 0xE5, CHR 0x87, CHR 0xBA]
      | End \<Rightarrow> [CHR 0xE7, CHR 0xBB, CHR 0x93, CHR 0xE6, CHR 0x9D, CHR 0x9F])"

definition createNode :: "FlowNodeType \<Rightarrow> real \<Rightarrow> real \<Rightarrow> editor \<Rightarrow> editor" where
  "createNode k x y s =
     (let (i, s1) = generateId ''node'' s;
          node = \<lparr>nid = i, ntype = k, ntext = defaultText k, nx = x, ny = y,
                  nwidth = fst (nodeSize k), nheight = snd (nodeSize k)\<rparr>;
          s2 = s1\<lparr>nodes := nodes s1 @ [node]\<rparr>
      in commitHistory (setSingleNodeSelection i s2))"

definition ensureEdgeDefaults :: "FlowEdge \<Rightarrow> FlowEdge" where
  "ensureEdgeDefaults edge =
     edge\<lparr>lineStyle := (case lineStyle edge of None \<Rightarrow> Some Solid | Some v \<Rightarrow> Some v),
          lineColor := Some (str_or (lineColor edge) ''#334155''),
          lineWidth := Some (num_or (lineWidth edge) (14 / 10)),
          labelColor := Some (str_or (labelColor edge) ''#94a3b8''),
          labelFontSize := Some (num_or (labelFontSize edge) 12),
          labelBold := (case labelBold edge of None \<Rightarrow> Some False | Some v \<Rightarrow> Some v)\<rparr>"

text \<open>The edge a click of the connect tool creates, with its default style.\<close>

definition new_edge :: "string \<Rightarrow> string \<Rightarrow> string \<Rightarrow> FlowEdge" where
  "new_edge i src tgt =
     \<lparr>eid = i, sourceId = src, targetId = tgt, label = Some [],
      labelColor = Some ''#94a3b8'', labelFontSize = Some 12, labelBold = Some False,
      lineStyle = Some Solid, lineColor = Some ''#334155'', lineWidth = Some (14 / 10),
      bendX = None, bendY = None\<rparr>"

text \<open>
  The start positions noted when a node drag begins:
  \<open>groupDragStart[id] = {x, y}\<close> for every dragged id that names a node.
\<close>

definition note_start :: "FlowNode list \<Rightarrow> (string \<Rightarrow> point option) \<Rightarrow> string \<Rightarrow> (string \<Rightarrow> point option)" where
  "note_start ns m i =
     (case find (\<lambda>it. nid it = i) ns of
        None \<Rightarrow> m
      | Some n \<Rightarrow> m(i \<mapsto> \<lparr>px = nx n, py = ny n\<rparr>))"

definition select_edge_at :: "nat \<Rightarrow> editor \<Rightarrow> editor" where
  "select_edge_at i s =
     (let es = (edges s)[i := ensureEdgeDefaults (edges s ! i)]
      in s\<lparr>edges := es, selectedEdgeId := eid (es ! i), selectedNodeId := [],
           selectedNodeIds := []\<rparr>)"

definition onMouseDown :: "real \<Rightarrow> real \<Rightarrow> bool \<Rightarrow> editor \<Rightarrow> error + editor" where
  "onMouseDown clientX clientY shiftKey s =
     (case toCanvasPoint s clientX clientY of
        Inl e \<Rightarrow> Inl e
      | Inr p \<Rightarrow>
     (case getBendHandleEdgeAt s (px p) (py p) of
        Inl e \<Rightarrow> Inl e
      | Inr bendEdge \<Rightarrow>
     (case (if selectedTool s = Select then bendEdge else None) of
        Some i \<Rightarrow>
          (let s1 = select_edge_at i s
           in Inr (s1\<lparr>draggingBendEdgeId := selectedEdgeId s1, draggingMoved := False\<rparr>))
      | None \<Rightarrow>
            (let node = getNodeAt s (px p) (py p)
             in if selectedTool s = Connect then
                  (case node of
                     None \<Rightarrow> Inr s
                   | Some n \<Rightarrow>
                       if connectFromId s = [] then
                         Inr (setSingleNodeSelection (nid n) (s\<lparr>connectFromId := nid n\<rparr>))
                       else if connectFromId s \<noteq> nid n then
                         (let (i, s1) = generateId ''edge'' s;
                              s2 = s1\<lparr>edges := edges s1 @ [new_edge i (connectFromId s) (nid n)],
                                     connectFromId := [], selectedNodeId := [],
                                     selectedNodeIds := [], selectedEdgeId := []\<rparr>
                          in Inr (commitHistory s2))
                       else Inr s)
                else
                  (case selectedTool s of
                     Place k \<Rightarrow> Inr ((createNode k (px p) (py p) s)\<lparr>selectedTool := Select\<rparr>)
                   | _ \<Rightarrow>
                  (case node of
                     Some n \<Rightarrow>
                       if shiftKey then Inr (toggleNodeSelection (nid n) s)
                       else
                         (let s1 = (if nid n \<notin> set (selectedNodeIds s)
                                    then setSingleNodeSelection (nid n) s
                                    else s\<lparr>selectedNodeId := nid n, selectedEdgeId := []\<rparr>);
                              grp = (if nid n \<in> set (selectedNodeIds s1)
                                     then selectedNodeIds s1 else [nid n])
                          in Inr (s1\<lparr>draggingNodeId := nid n, draggingMoved := False,
                                      draggingGroupIds := grp,
                                      groupDragStart := foldl (note_start (nodes s1)) (\<lambda>_. None) grp,
                                      dragStartPoint := p\<rparr>))
                   | None \<Rightarrow>
                       (case getEdgeAt s (px p) (py p) of
                          Inl e \<Rightarrow> Inl e
                        | Inr (Some i) \<Rightarrow> Inr (select_edge_at i s)
                        | Inr None \<Rightarrow>
                            if shiftKey then
                              Inr (s\<lparr>marquee := \<lparr>m_active = True, m_startX = px p, m_startY = py p,
                                                 m_endX = px p, m_endY = py p, m_append = True\<rparr>,
                                      selectedEdgeId := []\<rparr>)
                            else
                              Inr (s\<lparr>selectedNodeId := [], selectedNodeIds := [],
                                      selectedEdgeId := [], panning := True,
                                      panStart := \<lparr>px = clientX - px (pan s),
                                                   py = clientY - py (pan s)\<rparr>\<rparr>))))))))"

text \<open>\<open>xs.find(p)\<close> followed by an assignment to the object found: the first match is
  replaced.\<close>

fun update_first :: "('a \<Rightarrow> bool) \<Rightarrow> ('a \<Rightarrow> 'a) \<Rightarrow> 'a list \<Rightarrow> 'a list" where
  "update_first P f [] = []"
| "update_first P f (x # xs) = (if P x then f x # xs else x # update_first P f xs)"

text \<open>One turn of the loop over the dragged ids in \<open>onMouseMove\<close>.\<close>

definition drag_member :: "(string \<Rightarrow> point option) \<Rightarrow> real \<Rightarrow> real \<Rightarrow> FlowNode list \<Rightarrow> string \<Rightarrow> FlowNode list" where
  "drag_member starts dx dy ns i =
     (case starts i of
        None \<Rightarrow> ns
      | Some start \<Rightarrow>
          update_first (\<lambda>it. nid it = i)
            (\<lambda>n. n\<lparr>nx := js_round (px start + dx), ny := js_round (py start + dy)\<rparr>) ns)"

definition onMouseMove :: "real \<Rightarrow> real \<Rightarrow> editor \<Rightarrow> error + editor" where
  "onMouseMove clientX clientY s =
     (case toCanvasPoint s clientX clientY of
        Inl e \<Rightarrow> Inl e
      | Inr p \<Rightarrow>
          if draggingBendEdgeId s \<noteq> [] then
            (if find (\<lambda>it. eid it = draggingBendEdgeId s) (edges s) = None then Inr s
             else Inr (s\<lparr>edges := update_first (\<lambda>it. eid it = draggingBendEdgeId s)
                                   (\<lambda>e. e\<lparr>bendX := Some (js_round (px p / 10) * 10),
                                           bendY := Some (js_round (py p / 10) * 10)\<rparr>) (edges s),
                          draggingMoved := True\<rparr>))
          else if draggingNodeId s \<noteq> [] then
            (let leaderId = draggingNodeId s
             in case groupDragStart s leaderId of
                  None \<Rightarrow> Inr s
                | Some leaderStart \<Rightarrow>
                    (let rawX = px leaderStart + (px p - px (dragStartPoint s));
                         rawY = py leaderStart + (py p - py (dragStartPoint s));
                         snapped = applySnap (nodes s) rawX rawY leaderId;
                         dx = px snapped - px leaderStart;
                         dy = py snapped - py leaderStart
                     in Inr (s\<lparr>nodes := foldl (drag_member (groupDragStart s) dx dy) (nodes s)
                                             (draggingGroupIds s),
                                 draggingMoved := True\<rparr>)))
          else if m_active (marquee s) then
            Inr (s\<lparr>marquee := (marquee s)\<lparr>m_endX := px p, m_endY := py p\<rparr>\<rparr>)
          else if panning s then
            Inr (s\<lparr>pan := \<lparr>px = clientX - px (panStart s), py = clientY - py (panStart s)\<rparr>\<rparr>)
          else Inr s)"

text \<open>\<open>Array.from(new Set(xs))\<close>: the elements of \<open>xs\<close> once each, in the order of
  their first occurrence.\<close>

fun unique_first :: "'a list \<Rightarrow> 'a list \<Rightarrow> 'a list" where
  "unique_first seen [] = []"
| "unique_first seen (x # xs) =
     (if x \<in> set seen then unique_first seen xs else x # unique_first (x # seen) xs)"

definition onMouseUp :: "editor \<Rightarrow> editor" where
  "onMouseUp s =
     (if m_active (marquee s) then
        (let r = marqueeRect s;
             ids = map nid (filter (\<lambda>node. nodeIntersectsRect node r) (nodes s));
             s1 = (if m_append (marquee s)
                   then setNodeSelection (unique_first [] (selectedNodeIds s @ ids)) s
                   else setNodeSelection ids s)
         in s1\<lparr>marquee := (marquee s1)\<lparr>m_active := False\<rparr>\<rparr>)
      else
        (let s1 = (if (draggingNodeId s \<noteq> [] \<or> draggingBendEdgeId s \<noteq> []) \<and> draggingMoved s
                   then commitHistory s else s)
         in s1\<lparr>draggingNodeId := [], draggingGroupIds := [], groupDragStart := (\<lambda>_. None),
               draggingBendEdgeId := [], draggingMoved := False, panning := False\<rparr>))"

text \<open>\<open>xs.splice(idx, 1)\<close> at the first index that satisfies the test.\<close>

fun remove_first :: "('a \<Rightarrow> bool) \<Rightarrow> 'a list \<Rightarrow> 'a list" where
  "remove_first P [] = []"
| "remove_first P (x # xs) = (if P x then xs else x # remove_first P xs)"

definition deleteSelected :: "editor \<Rightarrow> editor" where
  "deleteSelected s =
     (if selectedNodeIds s \<noteq> [] then
        (let ids = set (selectedNodeIds s)
         in commitHistory
              (s\<lparr>nodes := filter (\<lambda>n. nid n \<notin> ids) (nodes s),
                 edges := filter (\<lambda>e. \<not> (sourceId e \<in> ids \<or> targetId e \<in> ids)) (edges s),
                 selectedNodeId := [], selectedNodeIds := []\<rparr>))
      else
        (case find (\<lambda>e. eid e = selectedEdgeId s) (edges s) of
           None \<Rightarrow> s
         | Some sel \<Rightarrow>
             commitHistory
               (s\<lparr>edges := remove_first (\<lambda>e. eid e = eid sel) (edges s),
                  selectedEdgeId := []\<rparr>)))"

section \<open>Clipboard\<close>

text \<open>The ids \<open>copySelected\<close> copies: the selection, or else the active node.\<close>

definition copy_ids :: "editor \<Rightarrow> string list" where
  "copy_ids s =
     (if selectedNodeIds s \<noteq> [] then selectedNodeIds s
      else (case find (\<lambda>n. nid n = selectedNodeId s) (nodes s) of
              Some n \<Rightarrow> [nid n]
            | None \<Rightarrow> []))"

definition copySelected :: "editor \<Rightarrow> editor" where
  "copySelected s =
     (let ids = copy_ids s
      in if ids = [] then s
         else
           (let clipNodes = filter (\<lambda>n. nid n \<in> set ids) (nodes s);
                clipEdges = filter (\<lambda>e. sourceId e \<in> set ids \<and> targetId e \<in> set ids) (edges s)
            in s\<lparr>clipboardData := Some \<lparr>snap_nodes = clipNodes, snap_edges = clipEdges\<rparr>,
                  pasteCount := 0\<rparr>))"

text \<open>
  The \<open>map\<close> over the nodes of the clipboard in \<open>pasteClipboard\<close>: every node gets
  a new id, noted in \<open>idMap\<close> under the old one, and is moved by the offset.
\<close>

fun paste_nodes :: "real \<Rightarrow> FlowNode list \<Rightarrow> (string \<Rightarrow> string option) \<Rightarrow> editor
    \<Rightarrow> FlowNode list \<times> (string \<Rightarrow> string option) \<times> editor" where
  "paste_nodes offset [] idMap s = ([], idMap, s)"
| "paste_nodes offset (n # ns) idMap s =
     (let (nextId, s1) = generateId ''node'' s;
          (rest, idMap2, s2) = paste_nodes offset ns (idMap(nid n \<mapsto> nextId)) s1
      in (n\<lparr>nid := nextId, nx := nx n + offset, ny := ny n + offset\<rparr> # rest, idMap2, s2))"

text \<open>
  The loop over the edges of the clipboard. An edge is left out when an end has no entry in
  \<open>idMap\<close>, or an empty one (\<open>!sourceId\<close>).
\<close>

fun paste_edges :: "real \<Rightarrow> (string \<Rightarrow> string option) \<Rightarrow> FlowEdge list \<Rightarrow> editor
    \<Rightarrow> FlowEdge list \<times> editor" where
  "paste_edges offset idMap [] s = ([], s)"
| "paste_edges offset idMap (e # es) s =
     (case (idMap (sourceId e), idMap (targetId e)) of
        (Some src, Some tgt) \<Rightarrow>
          if src = [] \<or> tgt = [] then paste_edges offset idMap es s
          else
            (let (i, s1) = generateId ''edge'' s;
                 (rest, s2) = paste_edges offset idMap es s1
             in (e\<lparr>eid := i, sourceId := src, targetId := tgt,
                    labelColor := Some (str_or (labelColor e) ''#94a3b8''),
                    labelFontSize := Some (num_or (labelFontSize e) 12),
                    labelBold := (case labelBold e of None \<Rightarrow> Some False | Some v \<Rightarrow> Some v),
                    lineStyle := (case lineStyle e of None \<Rightarrow> Some Solid | Some v \<Rightarrow> Some v),
                    lineColor := Some (str_or (lineColor e) ''#334155''),
                    lineWidth := Some (num_or (lineWidth e) (14 / 10)),
                    bendX := map_option (\<lambda>v. v + offset) (bendX e),
                    bendY := map_option (\<lambda>v. v + offset) (bendY e)\<rparr> # rest, s2))
      | _ \<Rightarrow> paste_edges offset idMap es s)"

definition pasteClipboard :: "editor \<Rightarrow> editor" where
  "pasteClipboard s =
     (case clipboardData s of
        None \<Rightarrow> s
      | Some clip \<Rightarrow>
          if snap_nodes clip = [] then s
          else
            (let s0 = s\<lparr>pasteCount := pasteCount s + 1\<rparr>;
                 offset = 28 * of_int (pasteCount s0);
                 (nextNodes, idMap, s1) = paste_nodes offset (snap_nodes clip) (\<lambda>_. None) s0;
                 (nextEdges, s2) = paste_edges offset idMap (snap_edges clip) s1;
                 s3 = s2\<lparr>nodes := nodes s2 @ nextNodes, edges := edges s2 @ nextEdges\<rparr>;
                 s4 = (setNodeSelection (map nid nextNodes) s3)\<lparr>selectedEdgeId := [],
                                                                   connectFromId := []\<rparr>
             in commitHistory s4))"

section \<open>Dragging a group\<close>







text \<open>
  What a paste is expected to add: the copied nodes, each moved by the offset, with ids
  taken from the generator one after the other, starting at its \<open>c\<close>-th id.
\<close>

fun pasted_nodes :: "real \<Rightarrow> (nat \<Rightarrow> string) \<Rightarrow> nat \<Rightarrow> FlowNode list \<Rightarrow> FlowNode list" where
  "pasted_nodes offset supply c [] = []"
| "pasted_nodes offset supply c (n # ns) =
     n\<lparr>nid := ''node_'' @ supply c, nx := nx n + offset, ny := ny n + offset\<rparr>
       # pasted_nodes offset supply (Suc c) ns"

text \<open>The nodes and edges \<open>copySelected\<close> puts on the clipboard.\<close>

definition clip_nodes :: "editor \<Rightarrow> FlowNode list" where
  "clip_nodes s = filter (\<lambda>n. nid n \<in> set (copy_ids s)) (nodes s)"

definition clip_edges :: "editor \<Rightarrow> FlowEdge list" where
  "clip_edges s =
     filter (\<lambda>e. sourceId e \<in> set (copy_ids s) \<and> targetId e \<in> set (copy_ids s)) (edges s)"

text \<open>
  The edges of the clipboard a paste keeps: both ends are ids of copied nodes. A pasted edge
  \<open>e'\<close> answers the copied edge \<open>e\<close> when its bend is the bend of \<open>e\<close> moved by the
  offset, and its ends are the new ids of copied nodes that had the ids of the ends of
  \<open>e\<close>.
\<close>

definition both_copied :: "FlowNode list \<Rightarrow> FlowEdge \<Rightarrow> bool" where
  "both_copied cn e = (sourceId e \<in> nid ` set cn \<and> targetId e \<in> nid ` set cn)"

definition pasted_from :: "real \<Rightarrow> FlowNode list \<Rightarrow> FlowNode list \<Rightarrow> FlowEdge \<Rightarrow> FlowEdge \<Rightarrow> bool" where
  "pasted_from offset cn new e e' =
     (bendX e' = map_option (\<lambda>v. v + offset) (bendX e)
      \<and> bendY e' = map_option (\<lambda>v. v + offset) (bendY e)
      \<and> label e' = label e
      \<and> (\<exists>j < length cn. nid (cn ! j) = sourceId e \<and> sourceId e' = nid (new ! j))
      \<and> (\<exists>j < length cn. nid (cn ! j) = targetId e \<and> targetId e' = nid (new ! j)))"

text \<open>The test of the paste loop on one edge: both ends have a non-empty entry.\<close>

definition edge_ok :: "(string \<Rightarrow> string option) \<Rightarrow> FlowEdge \<Rightarrow> bool" where
  "edge_ok idMap e =
     (case (idMap (sourceId e), idMap (targetId e)) of
        (Some src, Some tgt) \<Rightarrow> src \<noteq> [] \<and> tgt \<noteq> []
      | _ \<Rightarrow> False)"

definition remapped :: "real \<Rightarrow> (string \<Rightarrow> string option) \<Rightarrow> FlowEdge \<Rightarrow> FlowEdge \<Rightarrow> bool" where
  "remapped offset idMap e e' =
     (idMap (sourceId e) = Some (sourceId e') \<and> idMap (targetId e) = Some (targetId e')
      \<and> bendX e' = map_option (\<lambda>v. v + offset) (bendX e)
      \<and> bendY e' = map_option (\<lambda>v. v + offset) (bendY e)
      \<and> label e' = label e)"

text \<open>
  The promise of the id generator (the store guarantees the uniqueness of its ids): the
  ids it hands out are distinct, and none of those still to come is the id of a node or an
  edge of the diagram.
\<close>

definition generator_fresh :: "editor \<Rightarrow> bool" where
  "generator_fresh s =
     (inj (idSupply s)
      \<and> (\<forall>k \<ge> idCount s. ''node_'' @ idSupply s k \<notin> nid ` set (nodes s)
                         \<and> ''edge_'' @ idSupply s k \<notin> eid ` set (edges s)))"

text \<open>A sample state to copy from: the sample diagram with both nodes selected.\<close>

definition copy_editor :: editor where
  "copy_editor =
     initial_editor\<lparr>nodes := snap_nodes sample_diagram,
                     edges := [(sample_edge ''e'' ''a'' ''b'')\<lparr>bendX := Some 200, bendY := Some 150\<rparr>],
                     selectedNodeIds := [''a'', ''b''], selectedNodeId := ''a''\<rparr>"

section \<open>Auto layout\<close>

text \<open>
  The three \<open>Map\<close>s of \<open>autoLayout\<close> are functions into options.
  \<open>m.get(k) || 0\<close> is 0 for a missing key.
\<close>

datatype direction = Vertical | Horizontal

definition num_get :: "(string \<Rightarrow> int option) \<Rightarrow> string \<Rightarrow> int" where
  "num_get m k = (case m k of None \<Rightarrow> 0 | Some v \<Rightarrow> v)"

definition init_node :: "(string \<Rightarrow> int option) \<times> (string \<Rightarrow> string list option) \<Rightarrow> FlowNode
    \<Rightarrow> (string \<Rightarrow> int option) \<times> (string \<Rightarrow> string list option)" where
  "init_node st n = ((fst st)(nid n \<mapsto> 0), (snd st)(nid n \<mapsto> []))"

text \<open>\<open>adj.get(e.sourceId)?.push(e.targetId)\<close> does nothing when the source is no key.\<close>

definition count_edge :: "(string \<Rightarrow> int option) \<times> (string \<Rightarrow> string list option) \<Rightarrow> FlowEdge
    \<Rightarrow> (string \<Rightarrow> int option) \<times> (string \<Rightarrow> string list option)" where
  "count_edge st e =
     ((fst st)(targetId e \<mapsto> num_get (fst st) (targetId e) + 1),
      (case snd st (sourceId e) of
         None \<Rightarrow> snd st
       | Some cs \<Rightarrow> (snd st)(sourceId e \<mapsto> cs @ [targetId e])))"

definition layout_init :: "FlowNode list \<Rightarrow> FlowEdge list
    \<Rightarrow> (string \<Rightarrow> int option) \<times> (string \<Rightarrow> string list option)" where
  "layout_init ns es = foldl count_edge (foldl init_node (\<lambda>_. None, \<lambda>_. None) ns) es"

text \<open>The seeds: the nodes nothing points to, or else the first node.\<close>

definition layout_seeds :: "FlowNode list \<Rightarrow> (string \<Rightarrow> int option) \<Rightarrow> string list" where
  "layout_seeds ns incoming =
     (let queue = filter (\<lambda>i. num_get incoming i = 0) (map nid ns)
      in if queue = [] then [nid (ns ! 0)] else queue)"

text \<open>
  The state of the work loop: the queue, the depths and the remaining in-degrees. One
  turn of the inner loop over the children of the node taken from the queue, at depth
  \<open>d\<close>:
\<close>

record layout_state =
  l_queue :: "string list"
  l_depth :: "string \<Rightarrow> int option"
  l_incoming :: "string \<Rightarrow> int option"

definition child_step :: "int \<Rightarrow> layout_state \<Rightarrow> string \<Rightarrow> layout_state" where
  "child_step d st child =
     (let next = max (num_get (l_depth st) child) (d + 1);
          depth1 = (l_depth st)(child \<mapsto> next);
          incoming1 = (l_incoming st)(child \<mapsto> num_get (l_incoming st) child - 1)
      in \<lparr>l_queue = (if num_get incoming1 child \<le> 0 then l_queue st @ [child] else l_queue st),
          l_depth = depth1, l_incoming = incoming1\<rparr>)"

text \<open>
  The \<open>while (qIndex < queue.length)\<close> loop. The queue can grow without end on a cyclic
  diagram, so the loop is a partial function: \<open>None\<close> when it never ends.
\<close>

partial_function (option) layout_loop :: "(string \<Rightarrow> string list option) \<Rightarrow> layout_state \<Rightarrow> nat
    \<Rightarrow> layout_state option" where
  "layout_loop adj st qIndex =
     (if qIndex < length (l_queue st) then
        layout_loop adj
          (foldl (child_step (num_get (l_depth st) (l_queue st ! qIndex))) st
             (case adj (l_queue st ! qIndex) of None \<Rightarrow> [] | Some cs \<Rightarrow> cs))
          (Suc qIndex)
      else Some st)"

definition fill_depth :: "(string \<Rightarrow> int option) \<Rightarrow> FlowNode \<Rightarrow> (string \<Rightarrow> int option)" where
  "fill_depth depth n = (if depth (nid n) = None then depth(nid n \<mapsto> 0) else depth)"

text \<open>
  The groups hold the node objects themselves, which the placement then moves; the model
  holds their indices in the node array.
\<close>

definition layer_items :: "(string \<Rightarrow> int option) \<Rightarrow> FlowNode list \<Rightarrow> int \<Rightarrow> nat list" where
  "layer_items depth ns layer =
     filter (\<lambda>k. num_get depth (nid (ns ! k)) = layer) [0 ..< length ns]"

definition place_item :: "direction \<Rightarrow> int \<Rightarrow> FlowNode list \<Rightarrow> nat \<times> nat \<Rightarrow> FlowNode list" where
  "place_item dir layer ns ik =
     (let i = fst ik; k = snd ik; layerGap = 170; itemGap = 140; originX = 180; originY = 120
      in if dir = Vertical
         then ns[k := (ns ! k)\<lparr>nx := originX + of_nat i * itemGap,
                               ny := originY + of_int layer * layerGap\<rparr>]
         else ns[k := (ns ! k)\<lparr>nx := originX + of_int layer * layerGap,
                               ny := originY + of_nat i * itemGap\<rparr>])"

definition place_layer :: "direction \<Rightarrow> (string \<Rightarrow> int option) \<Rightarrow> FlowNode list \<Rightarrow> FlowNode list \<Rightarrow> int
    \<Rightarrow> FlowNode list" where
  "place_layer dir depth ns0 ns layer =
     foldl (place_item dir layer) ns (enumerate 0 (layer_items depth ns0 layer))"

definition layout_place :: "direction \<Rightarrow> (string \<Rightarrow> int option) \<Rightarrow> FlowNode list \<Rightarrow> FlowNode list" where
  "layout_place dir depth ns =
     (let layers = sort (remdups (map (\<lambda>n. num_get depth (nid n)) ns))
      in foldl (place_layer dir depth ns) ns layers)"

definition autoLayout :: "direction \<Rightarrow> editor \<Rightarrow> editor option" where
  "autoLayout dir s =
     (if nodes s = [] then Some s
      else
        (let init = layout_init (nodes s) (edges s);
             queue = layout_seeds (nodes s) (fst init);
             depth0 = foldl (\<lambda>d i. d(i \<mapsto> 0)) (\<lambda>_. None) queue
         in case layout_loop (snd init)
                   \<lparr>l_queue = queue, l_depth = depth0, l_incoming = fst init\<rparr> 0 of
              None \<Rightarrow> None
            | Some st \<Rightarrow>
                (let depth = foldl fill_depth (l_depth st) (nodes s)
                 in Some (commitHistory
                           (s\<lparr>nodes := layout_place dir depth (nodes s),
                              edges := map (\<lambda>e. e\<lparr>bendX := None, bendY := None\<rparr>) (edges s)\<rparr>)))))"


text \<open>A chain \<open>a \<rightarrow> b \<rightarrow> c\<close> stored out of order, with a bend on one edge.\<close>

definition chain_editor :: editor where
  "chain_editor =
     initial_editor\<lparr>nodes := [sample_node ''c'' End 0 0, sample_node ''a'' Start 50 70,
                               sample_node ''b'' Process 10 10],
                     edges := [(sample_edge ''f'' ''b'' ''c'')\<lparr>bendX := Some 5, bendY := Some 6\<rparr>,
                               sample_edge ''e'' ''a'' ''b'']\<rparr>"

section \<open>Keyboard, toolbar and the events of the editor\<close>

text \<open>
  \<open>key.toLowerCase()\<close> is compared with one of the letters \<open>z\<close>, \<open>y\<close>, \<open>a\<close>,
  \<open>c\<close>, \<open>v\<close> only, so the model lowers the letters \<open>A\<close> to \<open>Z\<close> and leaves
  every other character as it is.
\<close>

definition toLowerCase :: "string \<Rightarrow> string" where
  "toLowerCase key =
     map (\<lambda>c. if (65 :: nat) \<le> of_char c \<and> of_char c \<le> (90 :: nat)
               then char_of (of_char c + (32 :: nat)) else c) key"

definition onKeyDown :: "bool \<Rightarrow> bool \<Rightarrow> bool \<Rightarrow> string \<Rightarrow> editor \<Rightarrow> error + editor" where
  "onKeyDown ctrlKey metaKey shiftKey key s =
     (let cmd = ctrlKey \<or> metaKey
      in if cmd \<and> toLowerCase key = ''z'' then (if shiftKey then redo s else undo s)
         else if cmd \<and> toLowerCase key = ''y'' then redo s
         else if cmd \<and> toLowerCase key = ''a'' then Inr (setNodeSelection (map nid (nodes s)) s)
         else if cmd \<and> toLowerCase key = ''c'' then Inr (copySelected s)
         else if cmd \<and> toLowerCase key = ''v'' then Inr (pasteClipboard s)
         else if key = ''Delete'' then Inr (deleteSelected s)
         else Inr s)"

text \<open>\<open>clearFlow\<close>, with the answer to its \<open>window.confirm\<close> as an argument.\<close>

definition clearFlow :: "bool \<Rightarrow> editor \<Rightarrow> editor" where
  "clearFlow confirmed s =
     (if \<not> confirmed then s
      else commitHistory
             (s\<lparr>nodes := [], edges := [], selectedNodeId := [], selectedNodeIds := [],
                selectedEdgeId := [], connectFromId := []\<rparr>))"

definition resetSelectedEdgeBend :: "editor \<Rightarrow> editor" where
  "resetSelectedEdgeBend s =
     (case find (\<lambda>e. eid e = selectedEdgeId s) (edges s) of
        None \<Rightarrow> s
      | Some _ \<Rightarrow>
          commitHistory
            (s\<lparr>edges := update_first (\<lambda>e. eid e = selectedEdgeId s)
                           (\<lambda>e. e\<lparr>bendX := None, bendY := None\<rparr>) (edges s)\<rparr>))"

text \<open>
  The callback of \<open>importJson\<close>, run when a file has been chosen. Its argument is what
  \<open>JSON.parse\<close> made of the file: \<open>None\<close> when no file was chosen or the text is no
  JSON, and otherwise the two fields \<open>nodes\<close> and \<open>edges\<close>, each \<open>None\<close> when it is no array.
\<close>

definition importJson :: "(FlowNode list option \<times> FlowEdge list option) option \<Rightarrow> editor \<Rightarrow> editor" where
  "importJson parsed s =
     (case parsed of
        None \<Rightarrow> s
      | Some (pn, pe) \<Rightarrow>
          commitHistory
            ((replaceDiagram (case pn of Some ns \<Rightarrow> ns | None \<Rightarrow> [])
                             (case pe of Some es \<Rightarrow> es | None \<Rightarrow> []) s)
               \<lparr>selectedNodeId := [], selectedNodeIds := [], selectedEdgeId := [],
                connectFromId := []\<rparr>))"

text \<open>
  \<open>loadTemplate\<close>, with the diagram of the template named and the answer to
  \<open>window.confirm\<close> as arguments.
\<close>

definition loadTemplate :: "DiagramSnapshot \<Rightarrow> bool \<Rightarrow> editor \<Rightarrow> editor" where
  "loadTemplate template confirmed s =
     (if nodes s \<noteq> [] \<and> \<not> confirmed then s
      else commitHistory
             ((replaceDiagram (snap_nodes template) (snap_edges template) s)
                \<lparr>selectedNodeId := [], selectedNodeIds := [], selectedEdgeId := [],
                 connectFromId := [], pan := \<lparr>px = 0, py = 0\<rparr>, scale := 1\<rparr>))"

text \<open>
  The watcher of \<open>store.activeProject\<close>: the store has a new active project, whose flow
  diagram is the argument, or none. The callback loads the diagram, clears the selection
  and, in the next tick, resets the history.
\<close>

definition watch_activeProject :: "DiagramSnapshot option \<Rightarrow> editor \<Rightarrow> editor" where
  "watch_activeProject proj s =
     (case proj of
        None \<Rightarrow> s\<lparr>activeProject := False\<rparr>
      | Some flow \<Rightarrow>
          resetHistory
            (s\<lparr>activeProject := True, nodes := snap_nodes flow, edges := snap_edges flow,
               selectedNodeId := [], selectedNodeIds := [], selectedEdgeId := [],
               connectFromId := []\<rparr>))"

text \<open>
  The events the component listens to, with what each handler reads of the event, and the
  handler each one runs. \<open>mouseleave\<close> runs \<open>onMouseUp\<close> as \<open>mouseup\<close> does. The result
  is \<open>None\<close> when the handler throws or never returns.
\<close>

datatype event =
    MouseDown real real bool
  | MouseMove real real
  | MouseUp
  | KeyDown bool bool bool string
  | ClickTool tool
  | ClickUndo
  | ClickRedo
  | ClickDelete
  | ClickClear bool
  | ClickAutoLayout direction
  | ClickTemplate DiagramSnapshot bool
  | ClickResetBend
  | ChangeEdgeStyle
  | FileImported "(FlowNode list option \<times> FlowEdge list option) option"
  | ProjectChanged "DiagramSnapshot option"

definition returned :: "error + editor \<Rightarrow> editor option" where
  "returned r = (case r of Inl _ \<Rightarrow> None | Inr s \<Rightarrow> Some s)"

fun fire :: "event \<Rightarrow> editor \<Rightarrow> editor option" where
  "fire (MouseDown clientX clientY shiftKey) s = returned (onMouseDown clientX clientY shiftKey s)"
| "fire (MouseMove clientX clientY) s = returned (onMouseMove clientX clientY s)"
| "fire MouseUp s = Some (onMouseUp s)"
| "fire (KeyDown ctrlKey metaKey shiftKey key) s = returned (onKeyDown ctrlKey metaKey shiftKey key s)"
| "fire (ClickTool t) s = Some (s\<lparr>selectedTool := t\<rparr>)"
| "fire ClickUndo s = returned (undo s)"
| "fire ClickRedo s = returned (redo s)"
| "fire ClickDelete s = Some (deleteSelected s)"
| "fire (ClickClear confirmed) s = Some (clearFlow confirmed s)"
| "fire (ClickAutoLayout dir) s = autoLayout dir s"
| "fire (ClickTemplate template confirmed) s = Some (loadTemplate template confirmed s)"
| "fire ClickResetBend s = Some (resetSelectedEdgeBend s)"
| "fire ChangeEdgeStyle s = Some (commitHistory s)"
| "fire (FileImported parsed) s = Some (importJson parsed s)"
| "fire (ProjectChanged proj) s = Some (watch_activeProject proj s)"

fun run :: "event list \<Rightarrow> editor \<Rightarrow> editor option" where
  "run [] s = Some s"
| "run (ev # evs) s = (case fire ev s of None \<Rightarrow> None | Some s1 \<Rightarrow> run evs s1)"

text \<open>
  The selection: an edge is selected (\<open>selectedEdgeId\<close> is not the empty string) or nodes
  are (\<open>selectedNodeIds\<close> is not empty, \<open>selectedNodeId\<close> names the active one), never
  both.
\<close>

definition xor_selection :: "editor \<Rightarrow> bool" where
  "xor_selection s =
     (selectedEdgeId s = [] \<or> (selectedNodeIds s = [] \<and> selectedNodeId s = []))"

text \<open>Two nodes, both selected, and the edge between them.\<close>

definition selection_editor :: editor where
  "selection_editor =
     initial_editor\<lparr>nodes := snap_nodes sample_diagram, edges := snap_edges sample_diagram,
                     selectedNodeIds := [''a'', ''b''], selectedNodeId := ''a''\<rparr>"

text \<open>The same diagram after a press on the bend handle of the edge and the release.\<close>

definition selected_edge_editor :: editor where
  "selected_edge_editor =
     selection_editor\<lparr>edges := [ensureEdgeDefaults (sample_edge ''e'' ''a'' ''b'')],
                       selectedEdgeId := ''e'', selectedNodeId := [], selectedNodeIds := []\<rparr>"

section \<open>Boundary points lie on the outlines\<close>

lemma hypot_0_right: "hypot a 0 = \<bar>a\<bar>"
  by (simp add: hypot_def)






lemma nodeBoundaryPoint_along:
  "nodeBoundaryPoint n towardX towardY =
     (let vx = towardX - nx n; vy = towardY - ny n; len = hypot vx vy
      in if len < 1 / 10 ^ 6 then Inr \<lparr>px = nx n, py = ny n\<rparr>
         else boundary_along n (vx / len) (vy / len))"
  by (simp add: nodeBoundaryPoint_def boundary_along_def Let_def)































section \<open>The boundary point is always finite\<close>

lemma hypot_nonneg: "0 \<le> hypot a b" by (simp add: hypot_def)

lemma unit_direction:
  assumes "1 / 10 ^ 6 \<le> hypot vx vy"
  shows "(vx / hypot vx vy) * (vx / hypot vx vy) + (vy / hypot vx vy) * (vy / hypot vx vy) = 1"
proof -
  have pos: "0 < hypot vx vy" using assms by (rule less_le_trans[rotated]) simp
  have sq: "hypot vx vy * hypot vx vy = vx * vx + vy * vy"
    unfolding hypot_def by (simp add: sum_power2_ge_zero power2_eq_square[symmetric])
  have "(vx / hypot vx vy) * (vx / hypot vx vy) + (vy / hypot vx vy) * (vy / hypot vx vy)
        = (vx * vx + vy * vy) / (hypot vx vy * hypot vx vy)"
    by (simp add: add_divide_distrib)
  also have "\<dots> = 1" using pos unfolding sq[symmetric] by simp
  finally show ?thesis .
qed

lemma small_square:
  fixes a :: real
  assumes "\<bar>a\<bar> < 1 / 10 ^ 7"
  shows "a * a < 1 / 2"
proof -
  have "\<bar>a\<bar> * \<bar>a\<bar> \<le> (1 / 10 ^ 7) * (1 / 10 ^ 7)"
    using assms by (intro mult_mono) auto
  then show ?thesis by (simp add: abs_mult_self_eq)
qed

lemma rect_boundary_unit:
  assumes "dx * dx + dy * dy = 1"
  shows "\<exists>p. rect_boundary n dx dy = Inr p"
proof -
  have "\<not> (\<bar>dx\<bar> < 1 / 10 ^ 7 \<and> \<bar>dy\<bar> < 1 / 10 ^ 7)"
    using small_square[of dx] small_square[of dy] assms by linarith
  then show ?thesis
    by (auto simp: rect_boundary_def min_inf_def Let_def)
qed

lemma boundary_along_unit:
  assumes "dx * dx + dy * dy = 1"
  shows "\<exists>p. boundary_along n dx dy = Inr p"
  using rect_boundary_unit[OF assms, of n]
  by (auto simp: boundary_along_def Let_def split: option.splits)

lemma nodeBoundaryPoint_finite: "\<exists>p. nodeBoundaryPoint n towardX towardY = Inr p"
proof (cases "hypot (towardX - nx n) (towardY - ny n) < 1 / 10 ^ 6")
  case True
  then show ?thesis by (simp add: nodeBoundaryPoint_along Let_def)
next
  case False
  then have "1 / 10 ^ 6 \<le> hypot (towardX - nx n) (towardY - ny n)" by simp
  from boundary_along_unit[OF unit_direction[OF this], of n] False
  show ?thesis by (simp add: nodeBoundaryPoint_along Let_def)
qed




section \<open>The history keeps the last 80 snapshots\<close>

lemma drop80_less: "xs \<noteq> [] \<Longrightarrow> \<not> length xs \<le> length xs - 80"
proof -
  assume "xs \<noteq> []"
  then have "0 < length xs" by simp
  then show ?thesis by arith
qed

lemma last80_snoc:
  "(let h = last80 xs @ [x] in if length h > 80 then tl h else h) = last80 (xs @ [x])"
proof (cases "80 \<le> length xs")
  case True
  then have "xs \<noteq> []" by auto
  then have ne: "drop (length xs - 80) xs \<noteq> []" by (simp add: drop80_less)
  have "tl (drop (length xs - 80) xs @ [x]) = tl (drop (length xs - 80) xs) @ [x]"
    using ne by (simp add: tl_append2)
  also have "\<dots> = drop (Suc (length xs - 80)) xs @ [x]"
    by (simp add: drop_Suc tl_drop)
  finally have t: "tl (drop (length xs - 80) xs @ [x]) = drop (Suc (length xs - 80)) xs @ [x]" .
  have "Suc (length xs) - 80 = Suc (length xs - 80)" using True by simp
  then show ?thesis using True t by (simp add: last80_def Let_def)
next
  case False
  then show ?thesis by (simp add: last80_def Let_def)
qed

lemma length_last80: "length (last80 xs) = min 80 (length xs)"
  by (simp add: last80_def)

lemma last80_nonempty: "xs \<noteq> [] \<Longrightarrow> last80 xs \<noteq> []"
  by (simp add: last80_def drop80_less)

lemma last_last80: "xs \<noteq> [] \<Longrightarrow> last (last80 xs) = last xs"
  by (simp add: last80_def drop80_less)

lemma slice0_all: "int (length xs) \<le> e \<Longrightarrow> slice0 xs e = xs"
  by (simp add: slice0_def)

lemma committed_reset: "committed (resetHistory s) [cloneDiagram s]"
  by (simp add: committed_def resetHistory_def cloneDiagram_def last80_def)

lemma cloneDiagram_replace: "cloneDiagram (replaceDiagram (snap_nodes d) (snap_edges d) s) = d"
  by (simp add: cloneDiagram_def replaceDiagram_def)

lemma committed_step:
  assumes "committed s xs"
  shows "committed (commitHistory (replaceDiagram (snap_nodes d) (snap_edges d) s)) (xs @ [d])"
proof -
  let ?r = "replaceDiagram (snap_nodes d) (snap_edges d) s"
  have r: "historyReady ?r" "history ?r = last80 xs" "historyIndex ?r = int (length (last80 xs)) - 1"
    using assms by (simp_all add: committed_def replaceDiagram_def)
  have sl: "slice0 (history ?r) (historyIndex ?r + 1) = last80 xs"
    by (simp add: r slice0_all)
  have h: "history (commitHistory ?r) = last80 (xs @ [d])"
    using last80_snoc[of xs d]
    by (simp add: commitHistory_def r(1) sl cloneDiagram_replace Let_def)
  have i: "historyIndex (commitHistory ?r) = int (length (history (commitHistory ?r))) - 1"
    by (simp add: commitHistory_def r(1) Let_def)
  have c: "cloneDiagram (commitHistory ?r) = d"
    using cloneDiagram_replace[of d s]
    by (simp add: commitHistory_def r(1) Let_def cloneDiagram_def)
  have rd: "historyReady (commitHistory ?r)"
    by (simp add: commitHistory_def r(1) Let_def)
  show ?thesis unfolding committed_def using h i c rd by simp
qed

lemma committed_commits:
  "committed s xs \<Longrightarrow> committed (commits s ds) (xs @ ds)"
proof (induction ds arbitrary: s xs)
  case Nil
  then show ?case by simp
next
  case (Cons d ds)
  from Cons.IH[OF committed_step[OF Cons.prems, of d]] show ?case by simp
qed

lemma committed_run: "committed (commits (resetHistory s) ds) (cloneDiagram s # ds)"
  using committed_commits[OF committed_reset, of s ds] by simp

lemma commitHistory_not_ready: "\<not> historyReady s \<Longrightarrow> commitHistory s = s"
  by (simp add: commitHistory_def)

lemma last_capped: "last (if length (ys @ [x]) > 80 then tl (ys @ [x]) else ys @ [x]) = x"
  by (cases ys) auto

lemma commitHistory_ready:
  assumes "historyReady s" "- 1 \<le> historyIndex s"
  shows "history (commitHistory s) =
           (let h = take (nat (historyIndex s + 1)) (history s) @ [cloneDiagram s]
            in if length h > 80 then tl h else h)"
    and "historyIndex (commitHistory s) = int (length (history (commitHistory s))) - 1"
    and "cloneDiagram (commitHistory s) = cloneDiagram s"
    and "last (history (commitHistory s)) = cloneDiagram s"
    and "historyReady (commitHistory s)"
    and "length (history s) \<le> 80 \<Longrightarrow> length (history (commitHistory s)) \<le> 80"
proof -
  have sl: "slice0 (history s) (historyIndex s + 1) = take (nat (historyIndex s + 1)) (history s)"
    using assms(2) by (simp add: slice0_def)
  show h: "history (commitHistory s) =
           (let h = take (nat (historyIndex s + 1)) (history s) @ [cloneDiagram s]
            in if length h > 80 then tl h else h)"
    using assms(1) by (simp add: commitHistory_def Let_def sl)
  show "historyIndex (commitHistory s) = int (length (history (commitHistory s))) - 1"
    using assms(1) by (simp add: commitHistory_def Let_def)
  show "cloneDiagram (commitHistory s) = cloneDiagram s"
    using assms(1) by (simp add: commitHistory_def Let_def cloneDiagram_def)
  show "historyReady (commitHistory s)"
    using assms(1) by (simp add: commitHistory_def Let_def)
  show "last (history (commitHistory s)) = cloneDiagram s"
    unfolding h Let_def by (rule last_capped)
  show "length (history (commitHistory s)) \<le> 80" if "length (history s) \<le> 80"
    unfolding h Let_def using that by (simp add: min_def)
qed

lemma hundred_commits:
  assumes "length ds = 100"
  shows "history (commits (resetHistory s0) ds) = drop 21 (cloneDiagram s0 # ds)"
    and "historyIndex (commits (resetHistory s0) ds) = 79"
proof -
  have c: "committed (commits (resetHistory s0) ds) (cloneDiagram s0 # ds)"
    by (rule committed_run)
  then show h: "history (commits (resetHistory s0) ds) = drop 21 (cloneDiagram s0 # ds)"
    using assms by (simp add: committed_def last80_def)
  from c have "historyIndex (commits (resetHistory s0) ds)
                 = int (length (history (commits (resetHistory s0) ds))) - 1"
    by (simp add: committed_def)
  then show "historyIndex (commits (resetHistory s0) ds) = 79"
    unfolding h using assms by simp
qed

text \<open>
  Claim C3. \<open>commitHistory\<close> changes nothing while the history is not initialised.
  Otherwise it keeps the snapshots up to the current index, appends a copy of the live
  diagram, drops the oldest snapshot when there are more than 80, and points the index at
  the last one; a history of at most 80 snapshots stays within 80. From a fresh history,
  100 commits leave exactly the last 80 of the 101 diagrams stored, in their order: the
  initial snapshot and the first 20 commits are the ones evicted.
\<close>

theorem commitHistory_bounded:
  "(\<not> historyReady s \<longrightarrow> commitHistory s = s)
   \<and> (historyReady s \<and> - 1 \<le> historyIndex s \<longrightarrow>
        history (commitHistory s) =
          (let h = take (nat (historyIndex s + 1)) (history s) @ [cloneDiagram s]
           in if length h > 80 then tl h else h)
        \<and> historyIndex (commitHistory s) = int (length (history (commitHistory s))) - 1
        \<and> last (history (commitHistory s)) = cloneDiagram s
        \<and> cloneDiagram (commitHistory s) = cloneDiagram s
        \<and> (length (history s) \<le> 80 \<longrightarrow> length (history (commitHistory s)) \<le> 80))
   \<and> (length ds = 100 \<longrightarrow>
        history (commits (resetHistory s0) ds) = drop 21 (cloneDiagram s0 # ds)
        \<and> length (history (commits (resetHistory s0) ds)) = 80
        \<and> historyIndex (commits (resetHistory s0) ds) = 79)"
proof (intro conjI impI)
  assume "\<not> historyReady s"
  then show "commitHistory s = s" by (rule commitHistory_not_ready)
next
  assume a: "historyReady s \<and> - 1 \<le> historyIndex s"
  then show "history (commitHistory s) =
          (let h = take (nat (historyIndex s + 1)) (history s) @ [cloneDiagram s]
           in if length h > 80 then tl h else h)"
    using commitHistory_ready(1) by blast
  from a show "historyIndex (commitHistory s) = int (length (history (commitHistory s))) - 1"
    using commitHistory_ready(2) by blast
  from a show "last (history (commitHistory s)) = cloneDiagram s"
    using commitHistory_ready(4) by blast
  from a show "cloneDiagram (commitHistory s) = cloneDiagram s"
    using commitHistory_ready(3) by blast
  assume "length (history s) \<le> 80"
  with a show "length (history (commitHistory s)) \<le> 80"
    using commitHistory_ready(6) by blast
next
  assume l: "length ds = 100"
  then show h: "history (commits (resetHistory s0) ds) = drop 21 (cloneDiagram s0 # ds)"
    by (rule hundred_commits(1))
  show "length (history (commits (resetHistory s0) ds)) = 80"
    unfolding h using l by simp
  from l show "historyIndex (commits (resetHistory s0) ds) = 79"
    by (rule hundred_commits(2))
qed

text \<open>The theorem at the initial state, before and after \<open>resetHistory\<close>.\<close>

theorem commitHistory_bounded_witness:
  "\<not> historyReady initial_editor \<and> commitHistory initial_editor = initial_editor
   \<and> historyReady (resetHistory initial_editor) \<and> - 1 \<le> historyIndex (resetHistory initial_editor)
   \<and> length (history (resetHistory initial_editor)) \<le> 80
   \<and> length (history (commitHistory (resetHistory initial_editor))) \<le> 80
   \<and> length (replicate 100 sample_diagram) = 100
   \<and> length (history (commits (resetHistory initial_editor) (replicate 100 sample_diagram))) = 80
   \<and> historyIndex (commits (resetHistory initial_editor) (replicate 100 sample_diagram)) = 79"
  using commitHistory_bounded[of initial_editor "replicate 100 sample_diagram" initial_editor]
    commitHistory_bounded[of "resetHistory initial_editor" "[]" initial_editor]
  by (simp add: initial_editor_def resetHistory_def)

section \<open>Undo followed by redo\<close>

lemma undo_at_start: "historyIndex t \<le> 0 \<Longrightarrow> undo t = Inr t"
  by (simp add: undo_def canUndo_def)

lemma redo_at_end: "int (length (history t)) - 1 \<le> historyIndex t \<Longrightarrow> redo t = Inr t"
  by (simp add: redo_def canRedo_def)

lemma last_butlast_nth:
  assumes "2 \<le> length xs"
  shows "xs ! (length xs - 2) = last (butlast xs)"
proof -
  have ne: "butlast xs \<noteq> []" using assms by (cases xs) (auto split: if_splits)
  have "last (butlast xs) = butlast xs ! (length (butlast xs) - 1)"
    using ne by (rule last_conv_nth)
  also have "length (butlast xs) - 1 = length xs - 2" by simp
  also have "butlast xs ! (length xs - 2) = xs ! (length xs - 2)"
    using assms by (intro nth_butlast) simp
  finally show ?thesis by simp
qed

lemma undo_redo_committed:
  assumes c: "committed s xs" and two: "2 \<le> length xs"
  shows "\<exists>s1 s2. undo s = Inr s1 \<and> redo s1 = Inr s2
           \<and> nodes s2 = nodes s \<and> edges s2 = edges s
           \<and> history s2 = history s \<and> historyIndex s2 = historyIndex s
           \<and> historyIndex s1 = historyIndex s - 1
           \<and> (activeProject s \<longrightarrow> cloneDiagram s1 = last (butlast xs))"
proof -
  let ?h = "history s"
  let ?n = "length ?h"
  have n2: "2 \<le> ?n" using c two by (simp add: committed_def length_last80)
  have idx: "historyIndex s = int ?n - 1" using c by (simp add: committed_def)
  have lasth: "last ?h = cloneDiagram s"
    using c by (simp add: committed_def last_last80)
  have prev: "?h ! (?n - 2) = last (butlast xs)"
  proof -
    have "?h = last80 xs" using c by (simp add: committed_def)
    then have "?h ! (?n - 2) = xs ! (length xs - 80 + (?n - 2))"
      using n2 by (simp add: last80_def)
    also have "length xs - 80 + (?n - 2) = length xs - 2"
      using n2 two c by (simp add: committed_def length_last80 min_def split: if_splits)
    also have "xs ! (length xs - 2) = last (butlast xs)"
      using two by (rule last_butlast_nth)
    finally show ?thesis .
  qed
  define s1' where "s1' = s\<lparr>historyIndex := historyIndex s - 1\<rparr>"
  have g1: "js_nth (history s1') (historyIndex s1') = Some (?h ! (?n - 2))"
    using n2 idx by (simp add: s1'_def js_nth_def nat_diff_distrib' numeral_2_eq_2) 
  obtain s1 where u: "undo s = Inr s1" and s1h: "history s1 = ?h"
    and s1i: "historyIndex s1 = int ?n - 2" and s1a: "activeProject s1 = activeProject s"
    and s1d: "\<not> activeProject s \<longrightarrow> nodes s1 = nodes s \<and> edges s1 = edges s"
    and s1p: "activeProject s \<longrightarrow> cloneDiagram s1 = ?h ! (?n - 2)"
  proof (cases "activeProject s")
    case True
    show ?thesis
      by (rule that[of "s1'\<lparr>nodes := snap_nodes (?h ! (?n - 2)), edges := snap_edges (?h ! (?n - 2)),
                       selectedNodeId := [], selectedNodeIds := [],
                       selectedEdgeId := [], connectFromId := []\<rparr>"])
        (use True n2 idx g1 in \<open>simp_all add: undo_def canUndo_def Let_def applySnapshot_def
            s1'_def[symmetric] cloneDiagram_def\<close>, simp_all add: s1'_def)
  next
    case False
    show ?thesis
      by (rule that[of s1'])
        (use False n2 idx in \<open>simp_all add: undo_def canUndo_def Let_def applySnapshot_def
            s1'_def[symmetric]\<close>, simp_all add: s1'_def)
  qed
  define s2' where "s2' = s1\<lparr>historyIndex := historyIndex s1 + 1\<rparr>"
  have ne: "?h \<noteq> []" using n2 by auto
  have lastn: "?h ! (?n - 1) = cloneDiagram s"
    using lasth last_conv_nth[OF ne] by simp
  have "nat (int ?n - 1) = ?n - 1" by simp
  then have g2: "js_nth (history s2') (historyIndex s2') = Some (cloneDiagram s)"
    using n2 s1h s1i lastn ne
    by (simp add: s2'_def js_nth_def)
  have cr: "canRedo s1" using n2 s1h s1i by (simp add: canRedo_def)
  obtain s2 where r: "redo s1 = Inr s2" and s2h: "history s2 = ?h"
    and s2i: "historyIndex s2 = int ?n - 1" and s2d: "nodes s2 = nodes s \<and> edges s2 = edges s"
  proof (cases "activeProject s")
    case True
    show ?thesis
      by (rule that[of "s2'\<lparr>nodes := nodes s, edges := edges s,
                       selectedNodeId := [], selectedNodeIds := [],
                       selectedEdgeId := [], connectFromId := []\<rparr>"])
        (use True s1a cr g2 in \<open>simp_all add: redo_def Let_def applySnapshot_def
            s2'_def[symmetric] cloneDiagram_def\<close>, simp_all add: s2'_def s1h s1i)
  next
    case False
    show ?thesis
      by (rule that[of s2'])
        (use False s1a s1d cr in \<open>simp_all add: redo_def Let_def applySnapshot_def
            s2'_def[symmetric]\<close>, simp_all add: s2'_def s1h s1i)
  qed
  show ?thesis
    using u r s2h s2i s2d s1i s1p idx prev by auto
qed

text \<open>
  Claim C2. After \<open>resetHistory\<close> and any run of commits with at least one commit,
  \<open>undo\<close> and then \<open>redo\<close> both return normally and give back the nodes and
  edges the diagram had before the undo, with the history and its index as they were;
  the undo in between moves the index one back and, with a project, shows the diagram of
  the commit before. \<open>undo\<close> at index 0 and \<open>redo\<close> at the last index return
  the state unchanged.
\<close>

theorem undo_redo_restores:
  assumes "ds \<noteq> []"
  shows "\<exists>s1 s2. undo (commits (resetHistory s0) ds) = Inr s1 \<and> redo s1 = Inr s2
           \<and> nodes s2 = nodes (commits (resetHistory s0) ds)
           \<and> edges s2 = edges (commits (resetHistory s0) ds)
           \<and> history s2 = history (commits (resetHistory s0) ds)
           \<and> historyIndex s2 = historyIndex (commits (resetHistory s0) ds)
           \<and> historyIndex s1 = historyIndex (commits (resetHistory s0) ds) - 1
           \<and> (activeProject (commits (resetHistory s0) ds)
                \<longrightarrow> cloneDiagram s1 = last (butlast (cloneDiagram s0 # ds)))
           \<and> (\<forall>t. historyIndex t = 0 \<longrightarrow> undo t = Inr t)
           \<and> (\<forall>t. historyIndex t = int (length (history t)) - 1 \<longrightarrow> redo t = Inr t)"
proof -
  have "2 \<le> length (cloneDiagram s0 # ds)" using assms by (cases ds) auto
  from undo_redo_committed[OF committed_run this]
  show ?thesis using undo_at_start redo_at_end by (metis order_refl)
qed

text \<open>One commit of the sample diagram after the initial state.\<close>

theorem undo_redo_restores_witness:
  "[sample_diagram] \<noteq> []
   \<and> activeProject (commits (resetHistory initial_editor) [sample_diagram])
   \<and> (\<exists>s1 s2. undo (commits (resetHistory initial_editor) [sample_diagram]) = Inr s1
         \<and> redo s1 = Inr s2
         \<and> nodes s2 = snap_nodes sample_diagram \<and> edges s2 = snap_edges sample_diagram
         \<and> cloneDiagram s1 = cloneDiagram initial_editor)
   \<and> historyIndex (resetHistory initial_editor) = 0
   \<and> undo (resetHistory initial_editor) = Inr (resetHistory initial_editor)
   \<and> historyIndex (resetHistory initial_editor)
        = int (length (history (resetHistory initial_editor))) - 1
   \<and> redo (resetHistory initial_editor) = Inr (resetHistory initial_editor)"
proof -
  have a: "activeProject (commits (resetHistory initial_editor) [sample_diagram])"
    and n: "nodes (commits (resetHistory initial_editor) [sample_diagram]) = snap_nodes sample_diagram"
    and e: "edges (commits (resetHistory initial_editor) [sample_diagram]) = snap_edges sample_diagram"
    by (simp_all add: commitHistory_def replaceDiagram_def resetHistory_def initial_editor_def Let_def)
  have i: "historyIndex (resetHistory initial_editor) = 0"
    "historyIndex (resetHistory initial_editor) = int (length (history (resetHistory initial_editor))) - 1"
    by (simp_all add: resetHistory_def)
  from undo_redo_restores[of "[sample_diagram]" initial_editor]
  show ?thesis using a n e i by auto
qed

section \<open>Dangling edges are skipped\<close>

lemma edgePath_dangling: "dangling ns e \<Longrightarrow> edgePath ns e = Inr None"
  by (auto simp: dangling_def edgePath_def split: option.splits)

lemma edgePath_finite: "\<exists>r. edgePath ns e = Inr r"
proof (cases "dangling ns e")
  case True
  then show ?thesis by (simp add: edgePath_dangling)
next
  case False
  then obtain source target where st: "find (\<lambda>n. nid n = sourceId e) ns = Some source"
    "find (\<lambda>n. nid n = targetId e) ns = Some target"
    by (auto simp: dangling_def)
  define rawBx where "rawBx = (case bendX e of Some b \<Rightarrow> b | None \<Rightarrow> (nx source + nx target) / 2)"
  define rawBy where "rawBy = (case bendY e of Some b \<Rightarrow> b | None \<Rightarrow> (ny source + ny target) / 2)"
  obtain preS where preS: "nodeBoundaryPoint source rawBx rawBy = Inr preS"
    using nodeBoundaryPoint_finite by blast
  obtain preT where preT: "nodeBoundaryPoint target rawBx rawBy = Inr preT"
    using nodeBoundaryPoint_finite by blast
  define b_x where "b_x = (case bendX e of Some b \<Rightarrow> b | None \<Rightarrow> (px preS + px preT) / 2)"
  define b_y where "b_y = (case bendY e of Some b \<Rightarrow> b | None \<Rightarrow> (py preS + py preT) / 2)"
  obtain bs where bs: "nodeBoundaryPoint source b_x b_y = Inr bs"
    using nodeBoundaryPoint_finite by blast
  obtain bt where bt: "nodeBoundaryPoint target b_x b_y = Inr bt"
    using nodeBoundaryPoint_finite by blast
  show ?thesis
    using st preS preT bs bt
    by (simp add: edgePath_def Let_def rawBx_def[symmetric] rawBy_def[symmetric]
        b_x_def[symmetric] b_y_def[symmetric])
qed

lemma getEdgeAt_loop_find:
  "n \<le> length es \<Longrightarrow>
   \<exists>r. getEdgeAt_loop ns es h x y n = Inr r
      \<and> map_option (nth es) r = find (edge_hit ns h x y) (rev (take n es))
      \<and> (\<forall>i. r = Some i \<longrightarrow> i < n \<and> edge_hit ns h x y (es ! i))"
proof (induction n)
  case 0
  then show ?case by simp
next
  case (Suc n)
  then obtain r where r: "getEdgeAt_loop ns es h x y n = Inr r"
    "map_option (nth es) r = find (edge_hit ns h x y) (rev (take n es))"
    "\<forall>i. r = Some i \<longrightarrow> i < n \<and> edge_hit ns h x y (es ! i)"
    by auto
  have tk: "take (Suc n) es = take n es @ [es ! n]"
    using Suc.prems by (simp add: take_Suc_conv_app_nth)
  obtain q where q: "edgePath ns (es ! n) = Inr q" using edgePath_finite by blast
  show ?case
  proof (cases "edge_hit ns h x y (es ! n)")
    case True
    then show ?thesis using q
      by (auto simp: tk edge_hit_def Let_def split: option.splits)
  next
    case False
    then have "getEdgeAt_loop ns es h x y (Suc n) = getEdgeAt_loop ns es h x y n"
      using q by (auto simp: edge_hit_def Let_def split: option.splits)
    then show ?thesis using r False by (auto simp: tk)
  qed
qed

lemma getBendHandleEdgeAt_loop_find:
  "n \<le> length es \<Longrightarrow>
   \<exists>r. getBendHandleEdgeAt_loop ns es h x y n = Inr r
      \<and> map_option (nth es) r = find (bend_hit ns h x y) (rev (take n es))
      \<and> (\<forall>i. r = Some i \<longrightarrow> i < n \<and> bend_hit ns h x y (es ! i))"
proof (induction n)
  case 0
  then show ?case by simp
next
  case (Suc n)
  then obtain r where r: "getBendHandleEdgeAt_loop ns es h x y n = Inr r"
    "map_option (nth es) r = find (bend_hit ns h x y) (rev (take n es))"
    "\<forall>i. r = Some i \<longrightarrow> i < n \<and> bend_hit ns h x y (es ! i)"
    by auto
  have tk: "take (Suc n) es = take n es @ [es ! n]"
    using Suc.prems by (simp add: take_Suc_conv_app_nth)
  obtain q where q: "edgePath ns (es ! n) = Inr q" using edgePath_finite by blast
  show ?case
  proof (cases "bend_hit ns h x y (es ! n)")
    case True
    then show ?thesis using q
      by (auto simp: tk bend_hit_def Let_def split: option.splits)
  next
    case False
    then have "getBendHandleEdgeAt_loop ns es h x y (Suc n) = getBendHandleEdgeAt_loop ns es h x y n"
      using q by (auto simp: bend_hit_def Let_def split: option.splits)
    then show ?thesis using r False by (auto simp: tk)
  qed
qed

lemma find_filter_weaker:
  "(\<And>x. P x \<Longrightarrow> Q x) \<Longrightarrow> find P (filter Q xs) = find P xs"
  by (induction xs) auto

lemma edge_hit_not_dangling: "edge_hit ns h x y e \<Longrightarrow> \<not> dangling ns e"
  by (auto simp: edge_hit_def edgePath_dangling)

lemma bend_hit_not_dangling: "bend_hit ns h x y e \<Longrightarrow> \<not> dangling ns e"
  by (auto simp: bend_hit_def edgePath_dangling)

lemma for_each_edge_dangling:
  assumes "\<And>e. dangling ns e \<Longrightarrow> f e = Inr []"
  shows "for_each_edge f (filter (\<lambda>e. \<not> dangling ns e) es) = for_each_edge f es"
  by (induction es) (auto simp: assms split: sum.splits)

lemma for_each_edge_finite:
  assumes "\<And>e. \<exists>ops. f e = Inr ops"
  shows "\<exists>ops. for_each_edge f es = Inr ops"
proof (induction es)
  case Nil
  then show ?case by simp
next
  case (Cons e es)
  then show ?case using assms[of e] by auto
qed

lemma draw_edge_finite: "\<exists>ops. draw_edge ns sel e = Inr ops"
  using edgePath_finite[of ns e] by (auto simp: draw_edge_def Let_def split: option.splits)

lemma draw_arrow_finite: "\<exists>ops. draw_arrow ns sel e = Inr ops"
  using edgePath_finite[of ns e] by (auto simp: draw_arrow_def Let_def split: option.splits)

lemma draw_finite: "\<exists>ops. draw s = Inr ops"
  using for_each_edge_finite[of "draw_edge (nodes s) (selectedEdgeId s)" "edges s", OF draw_edge_finite]
    for_each_edge_finite[of "draw_arrow (nodes s) (selectedEdgeId s)" "edges s", OF draw_arrow_finite]
  by (auto simp: draw_def)

lemma draw_without_dangling: "draw (without_dangling s) = draw s"
proof -
  have "for_each_edge (draw_edge (nodes s) (selectedEdgeId s)) (filter (\<lambda>e. \<not> dangling (nodes s) e) (edges s))
        = for_each_edge (draw_edge (nodes s) (selectedEdgeId s)) (edges s)"
    by (rule for_each_edge_dangling) (simp add: draw_edge_def edgePath_dangling)
  moreover have "for_each_edge (draw_arrow (nodes s) (selectedEdgeId s)) (filter (\<lambda>e. \<not> dangling (nodes s) e) (edges s))
        = for_each_edge (draw_arrow (nodes s) (selectedEdgeId s)) (edges s)"
    by (rule for_each_edge_dangling) (simp add: draw_arrow_def edgePath_dangling)
  ultimately show ?thesis by (simp add: draw_def without_dangling_def split: sum.splits)
qed

lemma getEdgeAt_without_dangling:
  assumes "scale s \<noteq> 0"
  shows "\<exists>r r'. getEdgeAt s x y = Inr r \<and> getEdgeAt (without_dangling s) x y = Inr r'
           \<and> map_option (nth (edges s)) r = map_option (nth (edges (without_dangling s))) r'
           \<and> (\<forall>i. r = Some i \<longrightarrow> i < length (edges s) \<and> \<not> dangling (nodes s) (edges s ! i))"
proof -
  let ?es' = "filter (\<lambda>e. \<not> dangling (nodes s) e) (edges s)"
  let ?h = "8 / scale s"
  from getEdgeAt_loop_find[of "length (edges s)" "edges s" "nodes s" ?h x y]
  obtain r where r: "getEdgeAt_loop (nodes s) (edges s) ?h x y (length (edges s)) = Inr r"
    "map_option (nth (edges s)) r = find (edge_hit (nodes s) ?h x y) (rev (edges s))"
    "\<forall>i. r = Some i \<longrightarrow> i < length (edges s) \<and> edge_hit (nodes s) ?h x y (edges s ! i)"
    by auto
  from getEdgeAt_loop_find[of "length ?es'" ?es' "nodes s" ?h x y]
  obtain r' where r': "getEdgeAt_loop (nodes s) ?es' ?h x y (length ?es') = Inr r'"
    "map_option (nth ?es') r' = find (edge_hit (nodes s) ?h x y) (rev ?es')"
    by auto
  have "find (edge_hit (nodes s) ?h x y) (rev ?es') = find (edge_hit (nodes s) ?h x y) (rev (edges s))"
    unfolding rev_filter
    by (rule find_filter_weaker) (rule edge_hit_not_dangling)
  then show ?thesis
    using r r' assms edge_hit_not_dangling
    by (auto simp: getEdgeAt_def without_dangling_def)
qed

lemma getBendHandleEdgeAt_without_dangling:
  assumes "scale s \<noteq> 0"
  shows "\<exists>r r'. getBendHandleEdgeAt s x y = Inr r \<and> getBendHandleEdgeAt (without_dangling s) x y = Inr r'
           \<and> map_option (nth (edges s)) r = map_option (nth (edges (without_dangling s))) r'
           \<and> (\<forall>i. r = Some i \<longrightarrow> i < length (edges s) \<and> \<not> dangling (nodes s) (edges s ! i))"
proof -
  let ?es' = "filter (\<lambda>e. \<not> dangling (nodes s) e) (edges s)"
  let ?h = "10 / scale s"
  from getBendHandleEdgeAt_loop_find[of "length (edges s)" "edges s" "nodes s" ?h x y]
  obtain r where r: "getBendHandleEdgeAt_loop (nodes s) (edges s) ?h x y (length (edges s)) = Inr r"
    "map_option (nth (edges s)) r = find (bend_hit (nodes s) ?h x y) (rev (edges s))"
    "\<forall>i. r = Some i \<longrightarrow> i < length (edges s) \<and> bend_hit (nodes s) ?h x y (edges s ! i)"
    by auto
  from getBendHandleEdgeAt_loop_find[of "length ?es'" ?es' "nodes s" ?h x y]
  obtain r' where r': "getBendHandleEdgeAt_loop (nodes s) ?es' ?h x y (length ?es') = Inr r'"
    "map_option (nth ?es') r' = find (bend_hit (nodes s) ?h x y) (rev ?es')"
    by auto
  have "find (bend_hit (nodes s) ?h x y) (rev ?es') = find (bend_hit (nodes s) ?h x y) (rev (edges s))"
    unfolding rev_filter
    by (rule find_filter_weaker) (rule bend_hit_not_dangling)
  then show ?thesis
    using r r' assms bend_hit_not_dangling
    by (auto simp: getBendHandleEdgeAt_def without_dangling_def)
qed

text \<open>
  Claim C7. For an edge whose source or target names no node \<open>edgePath\<close> returns
  \<open>null\<close>, and it never fails for any edge. With a scale other than 0, the edge hit
  test and the bend handle hit test return normally, never pick a dangling edge, and find
  the same edge as in the diagram with the dangling edges taken out; \<open>draw\<close> issues the
  same drawing calls with and without them.
\<close>

theorem dangling_edges_skipped:
  "(dangling (nodes s) e \<longrightarrow> edgePath (nodes s) e = Inr None)
   \<and> (\<exists>r. edgePath (nodes s) e = Inr r)
   \<and> (scale s \<noteq> 0 \<longrightarrow>
        (\<exists>r r'. getEdgeAt s x y = Inr r \<and> getEdgeAt (without_dangling s) x y = Inr r'
           \<and> map_option (nth (edges s)) r = map_option (nth (edges (without_dangling s))) r'
           \<and> (\<forall>i. r = Some i \<longrightarrow> i < length (edges s) \<and> \<not> dangling (nodes s) (edges s ! i)))
        \<and> (\<exists>r r'. getBendHandleEdgeAt s x y = Inr r
           \<and> getBendHandleEdgeAt (without_dangling s) x y = Inr r'
           \<and> map_option (nth (edges s)) r = map_option (nth (edges (without_dangling s))) r'
           \<and> (\<forall>i. r = Some i \<longrightarrow> i < length (edges s) \<and> \<not> dangling (nodes s) (edges s ! i))))
   \<and> (\<exists>ops. draw s = Inr ops \<and> draw (without_dangling s) = Inr ops)"
  using edgePath_dangling[of "nodes s" e] edgePath_finite[of "nodes s" e]
    getEdgeAt_without_dangling[of s x y] getBendHandleEdgeAt_without_dangling[of s x y]
    draw_finite[of s] draw_without_dangling[of s]
  by (intro conjI impI) auto

lemma sample_path:
  "edgePath (snap_nodes sample_diagram) (sample_edge ''e'' ''a'' ''b'')
     = Inr (Some \<lparr>ep_sx = 172, ep_sy = 100, ep_bx = 200, ep_by = 100, ep_tx = 228, ep_ty = 100\<rparr>)"
  by (simp add: edgePath_def sample_diagram_def sample_edge_def sample_node_def
      nodeBoundaryPoint_def hypot_0_right Let_def ellipse_t_def rect_boundary_def min_inf_def
      pushPointOutward_def real_sqrt_divide)

text \<open>The sample state with one good and one dangling edge, probed at the bend.\<close>

theorem dangling_edges_skipped_witness:
  "dangling (nodes dangling_editor) (edges dangling_editor ! 1)
   \<and> edgePath (nodes dangling_editor) (edges dangling_editor ! 1) = Inr None
   \<and> scale dangling_editor \<noteq> 0
   \<and> getEdgeAt dangling_editor 200 100 = Inr (Some 0)
   \<and> getEdgeAt (without_dangling dangling_editor) 200 100 = Inr (Some 0)
   \<and> \<not> dangling (nodes dangling_editor) (edges dangling_editor ! 0)
   \<and> getBendHandleEdgeAt dangling_editor 200 100 = Inr (Some 0)
   \<and> (\<exists>ops. draw dangling_editor = Inr ops \<and> draw (without_dangling dangling_editor) = Inr ops)"
proof -
  have d: "dangling (nodes dangling_editor) (edges dangling_editor ! 1)"
    by (simp add: dangling_editor_def dangling_def sample_edge_def sample_diagram_def sample_node_def)
  have nd: "\<not> dangling (nodes dangling_editor) (edges dangling_editor ! 0)"
    by (simp add: dangling_editor_def dangling_def sample_edge_def sample_diagram_def sample_node_def)
  have p1: "edgePath (snap_nodes sample_diagram) (sample_edge ''d'' ''a'' ''zz'') = Inr None"
    by (rule edgePath_dangling)
      (simp add: dangling_def sample_edge_def sample_diagram_def sample_node_def)
  have g: "getEdgeAt dangling_editor 200 100 = Inr (Some 0)"
    by (simp add: getEdgeAt_def dangling_editor_def initial_editor_def numeral_2_eq_2
        sample_path p1 pointToSegmentDistance_def hypot_def Let_def)
  have g': "getEdgeAt (without_dangling dangling_editor) 200 100 = Inr (Some 0)"
    using d nd
    by (simp add: getEdgeAt_def without_dangling_def dangling_editor_def initial_editor_def
        sample_path pointToSegmentDistance_def hypot_def Let_def)
  have b: "getBendHandleEdgeAt dangling_editor 200 100 = Inr (Some 0)"
    by (simp add: getBendHandleEdgeAt_def dangling_editor_def initial_editor_def numeral_2_eq_2
        sample_path p1 hypot_def Let_def)
  have sc: "scale dangling_editor \<noteq> 0"
    by (simp add: dangling_editor_def initial_editor_def)
  show ?thesis
    using dangling_edges_skipped[of dangling_editor "edges dangling_editor ! 1" 200 100]
      d nd g g' b sc
    by simp
qed

section \<open>The path of an edge\<close>








section \<open>Group drag\<close>
















section \<open>Copy and paste\<close>

lemma length_pasted_nodes: "length (pasted_nodes off supply c cn) = length cn"
  by (induction cn arbitrary: c) auto

lemma nth_pasted_nodes:
  "j < length cn \<Longrightarrow>
   pasted_nodes off supply c cn ! j
     = (cn ! j)\<lparr>nid := ''node_'' @ supply (c + j), nx := nx (cn ! j) + off, ny := ny (cn ! j) + off\<rparr>"
proof (induction cn arbitrary: c j)
  case Nil
  then show ?case by simp
next
  case (Cons n cn)
  then show ?case by (cases j) auto
qed

lemma paste_nodes_gen:
  assumes "idCount s = c" "idSupply s = supply"
  shows "\<exists>idMap'. paste_nodes off cn idMap s
       = (pasted_nodes off supply c cn, idMap', s\<lparr>idCount := c + length cn\<rparr>)
     \<and> (\<forall>i v. idMap' i = Some v \<longrightarrow>
            idMap i = Some v \<or> (\<exists>j < length cn. nid (cn ! j) = i \<and> v = ''node_'' @ supply (c + j)))
     \<and> (\<forall>i. idMap' i = None \<longleftrightarrow> idMap i = None \<and> i \<notin> nid ` set cn)"
  using assms
proof (induction cn arbitrary: idMap s c)
  case Nil
  then show ?case by auto
next
  case (Cons n cn)
  define s1 where "s1 = s\<lparr>idCount := Suc (idCount s)\<rparr>"
  define w0 where "w0 = ''node_'' @ supply c"
  define m1 where "m1 = idMap(nid n \<mapsto> w0)"
  have g: "generateId ''node'' s = (w0, s1)"
    using Cons.prems by (simp add: generateId_def s1_def w0_def)
  have s1c: "idCount s1 = Suc c" "idSupply s1 = supply"
    using Cons.prems by (simp_all add: s1_def)
  from Cons.IH[OF s1c, of m1] obtain idMap' where
    r: "paste_nodes off cn m1 s1
          = (pasted_nodes off supply (Suc c) cn, idMap', s1\<lparr>idCount := Suc c + length cn\<rparr>)"
    and v: "\<forall>i v. idMap' i = Some v \<longrightarrow>
            m1 i = Some v \<or> (\<exists>j < length cn. nid (cn ! j) = i \<and> v = ''node_'' @ supply (Suc c + j))"
    and d: "\<forall>i. idMap' i = None \<longleftrightarrow> m1 i = None \<and> i \<notin> nid ` set cn"
    by blast
  have st: "s1\<lparr>idCount := Suc c + length cn\<rparr> = s\<lparr>idCount := c + length (n # cn)\<rparr>"
    by (simp add: s1_def)
  have eq: "paste_nodes off (n # cn) idMap s
       = (pasted_nodes off supply c (n # cn), idMap', s\<lparr>idCount := c + length (n # cn)\<rparr>)"
    unfolding paste_nodes.simps g Let_def prod.case m1_def[symmetric] r st
    by (simp add: w0_def)
  have v': "idMap i = Some w \<or> (\<exists>j < length (n # cn). nid ((n # cn) ! j) = i
               \<and> w = ''node_'' @ supply (c + j))"
    if "idMap' i = Some w" for i w
  proof -
    from v that have "m1 i = Some w
        \<or> (\<exists>j < length cn. nid (cn ! j) = i \<and> w = ''node_'' @ supply (Suc c + j))"
      by blast
    then show ?thesis
    proof
      assume a: "m1 i = Some w"
      show ?thesis
      proof (cases "i = nid n")
        case True
        with a have "w = ''node_'' @ supply (c + 0)" by (simp add: m1_def w0_def)
        with True show ?thesis by (intro disjI2 exI[of _ 0]) simp
      next
        case False
        with a show ?thesis by (simp add: m1_def)
      qed
    next
      assume "\<exists>j < length cn. nid (cn ! j) = i \<and> w = ''node_'' @ supply (Suc c + j)"
      then obtain j where "j < length cn" "nid (cn ! j) = i" "w = ''node_'' @ supply (Suc c + j)"
        by blast
      then show ?thesis by (intro disjI2 exI[of _ "Suc j"]) simp
    qed
  qed
  have d': "idMap' i = None \<longleftrightarrow> idMap i = None \<and> i \<notin> nid ` set (n # cn)" for i
    using d by (auto simp: m1_def split: if_splits)
  show ?case using eq v' d' by blast
qed

lemma paste_edges_gen:
  assumes "idCount s = c" "idSupply s = supply"
  shows "\<exists>pe. paste_edges off idMap ce s = (pe, s\<lparr>idCount := c + length pe\<rparr>)
     \<and> list_all2 (remapped off idMap) (filter (edge_ok idMap) ce) pe
     \<and> (\<forall>k < length pe. eid (pe ! k) = ''edge_'' @ supply (c + k))"
  using assms
proof (induction ce arbitrary: s c)
  case Nil
  then show ?case by auto
next
  case (Cons e ce)
  show ?case
  proof (cases "edge_ok idMap e")
    case False
    then have "paste_edges off idMap (e # ce) s = paste_edges off idMap ce s"
      by (auto simp: edge_ok_def split: option.splits)
    with Cons.IH[OF Cons.prems] False show ?thesis by simp
  next
    case True
    then obtain src tgt where st: "idMap (sourceId e) = Some src" "idMap (targetId e) = Some tgt"
      "src \<noteq> []" "tgt \<noteq> []"
      by (auto simp: edge_ok_def split: option.splits)
    define s1 where "s1 = s\<lparr>idCount := Suc (idCount s)\<rparr>"
    define w0 where "w0 = ''edge_'' @ supply c"
    have g: "generateId ''edge'' s = (w0, s1)"
      using Cons.prems by (simp add: generateId_def s1_def w0_def)
    have s1c: "idCount s1 = Suc c" "idSupply s1 = supply"
      using Cons.prems by (simp_all add: s1_def)
    from Cons.IH[OF s1c] obtain pe where
      r: "paste_edges off idMap ce s1 = (pe, s1\<lparr>idCount := Suc c + length pe\<rparr>)"
      and l: "list_all2 (remapped off idMap) (filter (edge_ok idMap) ce) pe"
      and i: "\<forall>k < length pe. eid (pe ! k) = ''edge_'' @ supply (Suc c + k)"
      by blast
    define e' where "e' = e\<lparr>eid := w0, sourceId := src, targetId := tgt,
                    labelColor := Some (str_or (labelColor e) ''#94a3b8''),
                    labelFontSize := Some (num_or (labelFontSize e) 12),
                    labelBold := (case labelBold e of None \<Rightarrow> Some False | Some v \<Rightarrow> Some v),
                    lineStyle := (case lineStyle e of None \<Rightarrow> Some Solid | Some v \<Rightarrow> Some v),
                    lineColor := Some (str_or (lineColor e) ''#334155''),
                    lineWidth := Some (num_or (lineWidth e) (14 / 10)),
                    bendX := map_option (\<lambda>v. v + off) (bendX e),
                    bendY := map_option (\<lambda>v. v + off) (bendY e)\<rparr>"
    have st': "s1\<lparr>idCount := Suc c + length pe\<rparr> = s\<lparr>idCount := c + length (e' # pe)\<rparr>"
      by (simp add: s1_def)
    have eq: "paste_edges off idMap (e # ce) s = (e' # pe, s\<lparr>idCount := c + length (e' # pe)\<rparr>)"
      using st st' by (simp add: g r e'_def Let_def)
    have rm: "remapped off idMap e e'"
      using st by (simp add: remapped_def e'_def)
    have ids: "eid ((e' # pe) ! k) = ''edge_'' @ supply (c + k)" if "k < length (e' # pe)" for k
    proof (cases k)
      case 0
      then show ?thesis by (simp add: e'_def w0_def)
    next
      case (Suc k')
      with that i show ?thesis by simp
    qed
    show ?thesis
      using eq rm l ids True by (intro exI[of _ "e' # pe"]) simp
  qed
qed

lemma commitHistory_keeps:
  "nodes (commitHistory s) = nodes s" "edges (commitHistory s) = edges s"
  "selectedNodeIds (commitHistory s) = selectedNodeIds s"
  "selectedNodeId (commitHistory s) = selectedNodeId s"
  "selectedEdgeId (commitHistory s) = selectedEdgeId s"
  "connectFromId (commitHistory s) = connectFromId s"
  "pasteCount (commitHistory s) = pasteCount s"
  "clipboardData (commitHistory s) = clipboardData s"
  "idCount (commitHistory s) = idCount s" "idSupply (commitHistory s) = idSupply s"
  "historyReady (commitHistory s) = historyReady s"
  by (simp_all add: commitHistory_def Let_def)

lemma edge_ok_both_copied:
  assumes d: "\<forall>i. idMap' i = None \<longleftrightarrow> i \<notin> nid ` set cn"
    and v: "\<forall>i v. idMap' i = Some v \<longrightarrow> (\<exists>j < length cn. nid (cn ! j) = i \<and> v = ''node_'' @ supply (c + j))"
  shows "edge_ok idMap' e = both_copied cn e"
proof -
  have ne: "w \<noteq> []" if "idMap' i = Some w" for i w
    using v that by auto
  have in_iff: "i \<in> nid ` set cn \<longleftrightarrow> (\<exists>w. idMap' i = Some w)" for i
    using spec[OF d, of i] by (cases "idMap' i") auto
  show ?thesis
  proof (cases "both_copied cn e")
    case True
    then obtain a b where "idMap' (sourceId e) = Some a" "idMap' (targetId e) = Some b"
      unfolding both_copied_def in_iff by blast
    then show ?thesis using True ne by (simp add: edge_ok_def)
  next
    case False
    then have "idMap' (sourceId e) = None \<or> idMap' (targetId e) = None"
      unfolding both_copied_def in_iff by auto
    then show ?thesis using False by (auto simp: edge_ok_def split: option.splits)
  qed
qed

lemma remapped_pasted_from:
  assumes v: "\<forall>i v. idMap' i = Some v \<longrightarrow> (\<exists>j < length cn. nid (cn ! j) = i \<and> v = ''node_'' @ supply (c + j))"
    and r: "remapped off idMap' e e'"
  shows "pasted_from off cn (pasted_nodes off supply c cn) e e'"
proof -
  have "\<exists>j < length cn. nid (cn ! j) = i \<and> w = nid (pasted_nodes off supply c cn ! j)"
    if "idMap' i = Some w" for i w
  proof -
    from v that obtain j where "j < length cn" "nid (cn ! j) = i" "w = ''node_'' @ supply (c + j)"
      by blast
    then show ?thesis by (intro exI[of _ j]) (simp add: nth_pasted_nodes)
  qed
  then show ?thesis using r by (simp add: remapped_def pasted_from_def)
qed

lemma pasteClipboard_once:
  assumes clip: "clipboardData s = Some clip" and ne: "snap_nodes clip \<noteq> []"
  shows "\<exists>pe s4. pasteClipboard s = commitHistory s4
           \<and> history s4 = history s \<and> historyIndex s4 = historyIndex s
           \<and> historyReady s4 = historyReady s
           \<and> nodes s4 = nodes s @ pasted_nodes (28 * of_int (pasteCount s + 1)) (idSupply s) (idCount s) (snap_nodes clip)
           \<and> edges s4 = edges s @ pe
           \<and> selectedNodeIds s4 = map nid (pasted_nodes (28 * of_int (pasteCount s + 1)) (idSupply s) (idCount s) (snap_nodes clip))
           \<and> selectedEdgeId s4 = []
           \<and> pasteCount s4 = pasteCount s + 1
           \<and> clipboardData s4 = clipboardData s
           \<and> idCount s4 = idCount s + length (snap_nodes clip) + length pe
           \<and> idSupply s4 = idSupply s
           \<and> list_all2 (pasted_from (28 * of_int (pasteCount s + 1)) (snap_nodes clip)
                          (pasted_nodes (28 * of_int (pasteCount s + 1)) (idSupply s) (idCount s) (snap_nodes clip)))
                 (filter (both_copied (snap_nodes clip)) (snap_edges clip)) pe
           \<and> (\<forall>k < length pe. eid (pe ! k) = ''edge_'' @ idSupply s (idCount s + length (snap_nodes clip) + k))"
proof -
  define cn where "cn = snap_nodes clip"
  define ce where "ce = snap_edges clip"
  define s0 where "s0 = s\<lparr>pasteCount := pasteCount s + 1\<rparr>"
  define off :: real where "off = 28 * of_int (pasteCount s + 1)"
  define c where "c = idCount s"
  define gen where "gen = idSupply s"
  define new where "new = pasted_nodes off gen c cn"
  have s0c: "idCount s0 = c" "idSupply s0 = gen" by (simp_all add: s0_def c_def gen_def)
  from paste_nodes_gen[OF s0c, of off cn "\<lambda>_. None"] obtain idMap' where
    pn: "paste_nodes off cn (\<lambda>_. None) s0 = (new, idMap', s0\<lparr>idCount := c + length cn\<rparr>)"
    and v: "\<forall>i v. idMap' i = Some v \<longrightarrow> (\<exists>j < length cn. nid (cn ! j) = i \<and> v = ''node_'' @ gen (c + j))"
    and d: "\<forall>i. idMap' i = None \<longleftrightarrow> i \<notin> nid ` set cn"
    unfolding new_def by auto
  define s1 where "s1 = s0\<lparr>idCount := c + length cn\<rparr>"
  have s1c: "idCount s1 = c + length cn" "idSupply s1 = gen"
    by (simp_all add: s1_def s0_def gen_def)
  from paste_edges_gen[OF s1c, of off idMap' ce] obtain pe where
    pe: "paste_edges off idMap' ce s1 = (pe, s1\<lparr>idCount := c + length cn + length pe\<rparr>)"
    and l: "list_all2 (remapped off idMap') (filter (edge_ok idMap') ce) pe"
    and i: "\<forall>k < length pe. eid (pe ! k) = ''edge_'' @ gen (c + length cn + k)"
    by blast
  define s2 where "s2 = s1\<lparr>idCount := c + length cn + length pe\<rparr>"
  define s4 where "s4 = (setNodeSelection (map nid new) (s2\<lparr>nodes := nodes s2 @ new, edges := edges s2 @ pe\<rparr>))
                          \<lparr>selectedEdgeId := [], connectFromId := []\<rparr>"
  have offs: "28 * real_of_int (pasteCount s0) = off" by (simp add: s0_def off_def)
  have p: "pasteClipboard s = commitHistory s4"
    using clip ne
    by (simp add: pasteClipboard_def Let_def cn_def[symmetric] ce_def[symmetric] s0_def[symmetric]
        offs pn s1_def[symmetric] pe s2_def[symmetric] s4_def)
  have ok: "filter (edge_ok idMap') ce = filter (both_copied cn) ce"
    using edge_ok_both_copied[OF d v] by (intro filter_cong) auto
  have l': "list_all2 (pasted_from off cn new) (filter (both_copied cn) ce) pe"
    unfolding ok[symmetric] new_def
    using l remapped_pasted_from[OF v] by (auto elim!: list_all2_mono)
  have f: "history s4 = history s" "historyIndex s4 = historyIndex s" "historyReady s4 = historyReady s"
    "nodes s4 = nodes s @ new" "edges s4 = edges s @ pe" "selectedNodeIds s4 = map nid new"
    "selectedEdgeId s4 = []" "pasteCount s4 = pasteCount s + 1" "clipboardData s4 = clipboardData s"
    "idCount s4 = idCount s + length cn + length pe" "idSupply s4 = idSupply s"
    by (simp_all add: s4_def s2_def s1_def s0_def setNodeSelection_def c_def)
  show ?thesis
    using p f l' i
    unfolding new_def off_def cn_def ce_def c_def gen_def
    by (intro exI[of _ pe] exI[of _ s4]) simp
qed

lemma nid_pasted_nodes:
  "map nid (pasted_nodes off supply c cn) = map (\<lambda>k. ''node_'' @ supply k) [c ..< c + length cn]"
proof (induction cn arbitrary: c)
  case Nil
  then show ?case by simp
next
  case (Cons n cn)
  have "[c ..< c + length (n # cn)] = c # [Suc c ..< Suc c + length cn]"
    by (subst upt_rec) simp
  then show ?case using Cons.IH[of "Suc c"] by simp
qed

lemma eid_pasted_edges:
  assumes "\<forall>k < length pe. eid (pe ! k) = ''edge_'' @ supply (c + k)"
  shows "map eid pe = map (\<lambda>k. ''edge_'' @ supply k) [c ..< c + length pe]"
proof (rule nth_equalityI)
  show "length (map eid pe) = length (map (\<lambda>k. ''edge_'' @ supply k) [c ..< c + length pe])"
    by simp
  fix k assume "k < length (map eid pe)"
  then have k: "k < length pe" by simp
  then have "map eid pe ! k = ''edge_'' @ supply (c + k)" using assms by simp
  moreover have "map (\<lambda>k. ''edge_'' @ supply k) [c ..< c + length pe] ! k = ''edge_'' @ supply (c + k)"
    using k by (simp del: append.simps)
  ultimately show "map eid pe ! k = map (\<lambda>k. ''edge_'' @ supply k) [c ..< c + length pe] ! k"
    by (simp only:)
qed

lemma copySelected_fields:
  assumes "clip_nodes s0 \<noteq> []"
  shows "clipboardData (copySelected s0) = Some \<lparr>snap_nodes = clip_nodes s0, snap_edges = clip_edges s0\<rparr>"
    and "pasteCount (copySelected s0) = 0"
    and "nodes (copySelected s0) = nodes s0" "edges (copySelected s0) = edges s0"
    and "history (copySelected s0) = history s0" "historyIndex (copySelected s0) = historyIndex s0"
    and "historyReady (copySelected s0) = historyReady s0"
    and "idCount (copySelected s0) = idCount s0" "idSupply (copySelected s0) = idSupply s0"
proof -
  have "copy_ids s0 \<noteq> []" using assms by (auto simp: clip_nodes_def)
  then show "clipboardData (copySelected s0) = Some \<lparr>snap_nodes = clip_nodes s0, snap_edges = clip_edges s0\<rparr>"
    "pasteCount (copySelected s0) = 0"
    "nodes (copySelected s0) = nodes s0" "edges (copySelected s0) = edges s0"
    "history (copySelected s0) = history s0" "historyIndex (copySelected s0) = historyIndex s0"
    "historyReady (copySelected s0) = historyReady s0"
    "idCount (copySelected s0) = idCount s0" "idSupply (copySelected s0) = idSupply s0"
    by (simp_all add: copySelected_def Let_def clip_nodes_def clip_edges_def)
qed

lemma pasted_from_ends:
  assumes "list_all2 (pasted_from off cn new) es pe" "length new = length cn" "e' \<in> set pe"
  shows "sourceId e' \<in> nid ` set new \<and> targetId e' \<in> nid ` set new"
proof -
  from assms(1,3) obtain e where "pasted_from off cn new e e'"
    by (auto simp: list_all2_conv_all_nth in_set_conv_nth)
  then show ?thesis using assms(2)
    by (auto simp: pasted_from_def intro!: image_eqI[where x = "new ! _"])
qed

lemma fresh_lists:
  assumes inj: "inj supply"
  shows "distinct (map (\<lambda>k. p @ supply k) ([c ..< c + n] @ [c + n + m ..< c + n + m + n']))"
proof -
  have "inj (\<lambda>k. p @ supply k)" using inj by (auto simp: inj_def)
  then have "inj_on (\<lambda>k. p @ supply k) (set ([c ..< c + n] @ [c + n + m ..< c + n + m + n']))"
    by (rule inj_on_subset) simp
  moreover have "distinct ([c ..< c + n] @ [c + n + m ..< c + n + m + n'])" by auto
  ultimately show ?thesis unfolding distinct_map by blast
qed

text \<open>
  Claim C4. After a copy that put at least one node on the clipboard, two pastes in a row
  each append one copy of the clipboard nodes to the diagram, the first moved by 28 and the
  second by 56 in \<open>x\<close> and \<open>y\<close>, with ids taken from the generator one after the
  other. Each paste appends one edge for every clipboard edge whose two ends are ids of
  copied nodes and none for the others; the bend of a pasted edge, where the original has
  one, is moved by the same 28 or 56, and its ends are the new ids of copied nodes that had
  the ids of its original ends, so they name nodes of the same paste. The pasted nodes
  are the selection afterwards and no edge is selected. Each paste is one call of
  \<open>commitHistory\<close> on a state whose history is as the paste found it. When the generator
  keeps its promise, the ids of the pasted nodes and edges are distinct and not in use.
\<close>

theorem paste_twice:
  assumes "clip_nodes s0 \<noteq> []"
  shows "\<exists>new1 new2 pe1 pe2 t1 t2.
      pasteClipboard (copySelected s0) = commitHistory t1
    \<and> history t1 = history s0 \<and> historyIndex t1 = historyIndex s0
    \<and> historyReady t1 = historyReady s0
    \<and> pasteClipboard (pasteClipboard (copySelected s0)) = commitHistory t2
    \<and> history t2 = history (pasteClipboard (copySelected s0))
    \<and> historyIndex t2 = historyIndex (pasteClipboard (copySelected s0))
    \<and> historyReady t2 = historyReady s0
    \<and> new1 = pasted_nodes 28 (idSupply s0) (idCount s0) (clip_nodes s0)
    \<and> new2 = pasted_nodes 56 (idSupply s0)
               (idCount s0 + length (clip_nodes s0) + length pe1) (clip_nodes s0)
    \<and> nodes (pasteClipboard (copySelected s0)) = nodes s0 @ new1
    \<and> nodes (pasteClipboard (pasteClipboard (copySelected s0))) = nodes s0 @ new1 @ new2
    \<and> edges (pasteClipboard (copySelected s0)) = edges s0 @ pe1
    \<and> edges (pasteClipboard (pasteClipboard (copySelected s0))) = edges s0 @ pe1 @ pe2
    \<and> (\<forall>j < length (clip_nodes s0).
          nx (new1 ! j) = nx (clip_nodes s0 ! j) + 28 \<and> ny (new1 ! j) = ny (clip_nodes s0 ! j) + 28
        \<and> nx (new2 ! j) = nx (clip_nodes s0 ! j) + 56 \<and> ny (new2 ! j) = ny (clip_nodes s0 ! j) + 56
        \<and> nid (new1 ! j) = ''node_'' @ idSupply s0 (idCount s0 + j)
        \<and> nid (new2 ! j)
            = ''node_'' @ idSupply s0 (idCount s0 + length (clip_nodes s0) + length pe1 + j))
    \<and> list_all2 (pasted_from 28 (clip_nodes s0) new1)
         (filter (both_copied (clip_nodes s0)) (clip_edges s0)) pe1
    \<and> list_all2 (pasted_from 56 (clip_nodes s0) new2)
         (filter (both_copied (clip_nodes s0)) (clip_edges s0)) pe2
    \<and> (\<forall>e'\<in>set pe1. sourceId e' \<in> nid ` set new1 \<and> targetId e' \<in> nid ` set new1)
    \<and> (\<forall>e'\<in>set pe2. sourceId e' \<in> nid ` set new2 \<and> targetId e' \<in> nid ` set new2)
    \<and> map eid pe1 = map (\<lambda>k. ''edge_'' @ idSupply s0 k)
          [idCount s0 + length (clip_nodes s0) ..< idCount s0 + length (clip_nodes s0) + length pe1]
    \<and> map eid pe2 = map (\<lambda>k. ''edge_'' @ idSupply s0 k)
          [idCount s0 + 2 * length (clip_nodes s0) + length pe1
             ..< idCount s0 + 2 * length (clip_nodes s0) + length pe1 + length pe2]
    \<and> selectedNodeIds (pasteClipboard (copySelected s0)) = map nid new1
    \<and> selectedEdgeId (pasteClipboard (copySelected s0)) = []
    \<and> selectedNodeIds (pasteClipboard (pasteClipboard (copySelected s0))) = map nid new2
    \<and> selectedEdgeId (pasteClipboard (pasteClipboard (copySelected s0))) = []
    \<and> (generator_fresh s0 \<longrightarrow>
          distinct (map nid (new1 @ new2)) \<and> nid ` set (new1 @ new2) \<inter> nid ` set (nodes s0) = {}
        \<and> distinct (map eid (pe1 @ pe2)) \<and> eid ` set (pe1 @ pe2) \<inter> eid ` set (edges s0) = {})"
proof -
  define cn where "cn = clip_nodes s0"
  define ce where "ce = clip_edges s0"
  define s where "s = copySelected s0"
  define c where "c = idCount s0"
  define gen where "gen = idSupply s0"
  define n where "n = length cn"
  note cf = copySelected_fields[OF assms, folded s_def cn_def ce_def c_def gen_def]
  have ne: "snap_nodes \<lparr>snap_nodes = cn, snap_edges = ce\<rparr> \<noteq> []"
    using assms by (simp add: cn_def)
  define new1 where "new1 = pasted_nodes 28 gen c cn"
  have o1: "28 * real_of_int (pasteCount s + 1) = 28" by (simp add: cf)
  from pasteClipboard_once[OF cf(1) ne] obtain pe1 t1 where
    p1: "pasteClipboard s = commitHistory t1"
    and h1: "history t1 = history s0" "historyIndex t1 = historyIndex s0" "historyReady t1 = historyReady s0"
    and f1: "nodes t1 = nodes s0 @ new1" "edges t1 = edges s0 @ pe1"
      "selectedNodeIds t1 = map nid new1" "selectedEdgeId t1 = []" "pasteCount t1 = 1"
      "clipboardData t1 = Some \<lparr>snap_nodes = cn, snap_edges = ce\<rparr>"
      "idCount t1 = c + n + length pe1" "idSupply t1 = gen"
    and l1: "list_all2 (pasted_from 28 cn new1) (filter (both_copied cn) ce) pe1"
    and i1: "\<forall>k < length pe1. eid (pe1 ! k) = ''edge_'' @ gen (c + n + k)"
    unfolding o1 cf new1_def n_def by auto
  define s1 where "s1 = pasteClipboard s"
  have g1: "nodes s1 = nodes s0 @ new1" "edges s1 = edges s0 @ pe1"
    "selectedNodeIds s1 = map nid new1" "selectedEdgeId s1 = []" "pasteCount s1 = 1"
    "clipboardData s1 = Some \<lparr>snap_nodes = cn, snap_edges = ce\<rparr>"
    "idCount s1 = c + n + length pe1" "idSupply s1 = gen" "historyReady s1 = historyReady s0"
    unfolding s1_def p1 by (simp_all add: commitHistory_keeps f1 h1)
  define new2 where "new2 = pasted_nodes 56 gen (c + n + length pe1) cn"
  have o2: "28 * real_of_int (pasteCount s1 + 1) = 56" by (simp add: g1)
  from pasteClipboard_once[OF g1(6) ne] obtain pe2 t2 where
    p2: "pasteClipboard s1 = commitHistory t2"
    and h2: "history t2 = history s1" "historyIndex t2 = historyIndex s1" "historyReady t2 = historyReady s0"
    and f2: "nodes t2 = (nodes s0 @ new1) @ new2" "edges t2 = (edges s0 @ pe1) @ pe2"
      "selectedNodeIds t2 = map nid new2" "selectedEdgeId t2 = []"
    and l2: "list_all2 (pasted_from 56 cn new2) (filter (both_copied cn) ce) pe2"
    and i2: "\<forall>k < length pe2. eid (pe2 ! k) = ''edge_'' @ gen (c + n + length pe1 + n + k)"
    unfolding o2 g1 new2_def n_def by auto
  define s2 where "s2 = pasteClipboard s1"
  have g2: "nodes s2 = nodes s0 @ new1 @ new2" "edges s2 = edges s0 @ pe1 @ pe2"
    "selectedNodeIds s2 = map nid new2" "selectedEdgeId s2 = []"
    unfolding s2_def p2 by (simp_all add: commitHistory_keeps f2)
  have len: "length new1 = length cn" "length new2 = length cn"
    by (simp_all add: new1_def new2_def length_pasted_nodes)
  have coords: "nx (new1 ! j) = nx (cn ! j) + 28 \<and> ny (new1 ! j) = ny (cn ! j) + 28
        \<and> nx (new2 ! j) = nx (cn ! j) + 56 \<and> ny (new2 ! j) = ny (cn ! j) + 56
        \<and> nid (new1 ! j) = ''node_'' @ gen (c + j)
        \<and> nid (new2 ! j) = ''node_'' @ gen (c + length cn + length pe1 + j)"
    if "j < length cn" for j
    using that by (simp add: new1_def new2_def nth_pasted_nodes n_def del: append.simps)
  have ends1: "\<forall>e'\<in>set pe1. sourceId e' \<in> nid ` set new1 \<and> targetId e' \<in> nid ` set new1"
    using pasted_from_ends[OF l1 len(1)] by blast
  have ends2: "\<forall>e'\<in>set pe2. sourceId e' \<in> nid ` set new2 \<and> targetId e' \<in> nid ` set new2"
    using pasted_from_ends[OF l2 len(2)] by blast
  have e1: "map eid pe1 = map (\<lambda>k. ''edge_'' @ gen k) [c + n ..< c + n + length pe1]"
    using eid_pasted_edges[of pe1 "gen" "c + n"] i1 by simp
  have e2': "map eid pe2 = map (\<lambda>k. ''edge_'' @ gen k)
              [c + n + length pe1 + n ..< c + n + length pe1 + n + length pe2]"
    using eid_pasted_edges[of pe2 "gen" "c + n + length pe1 + n"] i2 by simp
  have e2: "map eid pe2 = map (\<lambda>k. ''edge_'' @ gen k)
              [c + 2 * n + length pe1 ..< c + 2 * n + length pe1 + length pe2]"
  proof -
    have "c + n + length pe1 + n = c + 2 * n + length pe1" by simp
    with e2' show ?thesis by (simp only:)
  qed
  have n1: "map nid new1 = map (\<lambda>k. ''node_'' @ gen k) [c ..< c + n]"
    by (simp add: new1_def nid_pasted_nodes n_def del: append.simps)
  have n2: "map nid new2 = map (\<lambda>k. ''node_'' @ gen k)
              [c + n + length pe1 ..< c + n + length pe1 + n]"
    by (simp add: new2_def nid_pasted_nodes n_def del: append.simps)
  have fresh: "distinct (map nid (new1 @ new2)) \<and> nid ` set (new1 @ new2) \<inter> nid ` set (nodes s0) = {}
        \<and> distinct (map eid (pe1 @ pe2)) \<and> eid ` set (pe1 @ pe2) \<inter> eid ` set (edges s0) = {}"
    if gf: "generator_fresh s0"
  proof -
    from gf have inj: "inj gen"
      and out: "\<And>k. c \<le> k \<Longrightarrow> ''node_'' @ gen k \<notin> nid ` set (nodes s0)"
        "\<And>k. c \<le> k \<Longrightarrow> ''edge_'' @ gen k \<notin> eid ` set (edges s0)"
      by (simp_all add: generator_fresh_def gen_def c_def del: append.simps)
    have out1: "nid x \<noteq> ''node_'' @ gen k" if "c \<le> k" "x \<in> set (nodes s0)" for k x
      using out(1)[OF that(1)] that(2) by (metis imageI)
    have out2: "eid x \<noteq> ''edge_'' @ gen k" if "c \<le> k" "x \<in> set (edges s0)" for k x
      using out(2)[OF that(1)] that(2) by (metis imageI)
    have d1: "distinct (map nid (new1 @ new2))"
      using fresh_lists[OF inj, of "''node_''" c n "length pe1" n]
      by (simp only: map_append n1 n2)
    have d2: "distinct (map eid (pe1 @ pe2))"
      using fresh_lists[OF inj, of "''edge_''" "c + n" "length pe1" n "length pe2"]
      by (simp only: map_append e1 e2')
    have "nid ` set (new1 @ new2) = set (map nid new1) \<union> set (map nid new2)" by auto
    also have "\<dots> \<inter> nid ` set (nodes s0) = {}"
      unfolding n1 n2 using out1 by (fastforce simp del: append.simps)
    finally have x1: "nid ` set (new1 @ new2) \<inter> nid ` set (nodes s0) = {}" .
    have "eid ` set (pe1 @ pe2) = set (map eid pe1) \<union> set (map eid pe2)" by auto
    also have "\<dots> \<inter> eid ` set (edges s0) = {}"
      unfolding e1 e2 using out2 by (fastforce simp del: append.simps)
    finally have x2: "eid ` set (pe1 @ pe2) \<inter> eid ` set (edges s0) = {}" .
    show ?thesis using d1 d2 x1 x2 by blast
  qed
  show ?thesis
    apply (rule exI[of _ new1], rule exI[of _ new2], rule exI[of _ pe1], rule exI[of _ pe2],
        rule exI[of _ t1], rule exI[of _ t2])
    using p1 h1 p2 h2 g1 g2 coords l1 l2 ends1 ends2 e1 e2 fresh
    unfolding s1_def s2_def s_def cn_def ce_def c_def gen_def n_def new1_def new2_def
    by (intro conjI) (simp_all del: append.simps)
qed

lemma sample_ids_inj: "inj sample_ids"
proof (rule injI)
  fix a b assume "sample_ids a = sample_ids b"
  then have "length (sample_ids a) = length (sample_ids b)" by simp
  then show "a = b" by (simp add: sample_ids_def)
qed

lemma copy_editor_fresh: "generator_fresh copy_editor"
  using sample_ids_inj
  by (auto simp: generator_fresh_def copy_editor_def initial_editor_def sample_diagram_def
      sample_node_def sample_edge_def)

lemma copy_editor_clip: "clip_nodes copy_editor = snap_nodes sample_diagram"
  by (simp add: clip_nodes_def copy_ids_def copy_editor_def initial_editor_def sample_diagram_def
      sample_node_def)


lemma copy_editor_clip_edges:
  "filter (both_copied (clip_nodes copy_editor)) (clip_edges copy_editor)
     = [(sample_edge ''e'' ''a'' ''b'')\<lparr>bendX := Some 200, bendY := Some 150\<rparr>]"
proof -
  have "clip_edges copy_editor = [(sample_edge ''e'' ''a'' ''b'')\<lparr>bendX := Some 200, bendY := Some 150\<rparr>]"
    by (simp add: clip_edges_def copy_ids_def copy_editor_def initial_editor_def sample_edge_def)
  then show ?thesis
    unfolding copy_editor_clip
    by (simp add: sample_diagram_def sample_node_def sample_edge_def both_copied_def)
qed

lemma list_all2_single: "list_all2 P [x] ys \<Longrightarrow> \<exists>y. ys = [y] \<and> P x y"
  by (cases ys) (auto simp: list_all2_Cons1)

text \<open>The sample diagram with its one edge bent at \<open>(200, 150)\<close>, copied and pasted twice.\<close>

theorem paste_twice_witness:
  "clip_nodes copy_editor \<noteq> [] \<and> generator_fresh copy_editor
   \<and> map (\<lambda>n. (nid n, nx n, ny n)) (nodes (pasteClipboard (pasteClipboard (copySelected copy_editor))))
     = [(''a'', 100, 100), (''b'', 300, 100), (''node_i'', 128, 128), (''node_ii'', 328, 128),
        (''node_iiii'', 156, 156), (''node_iiiii'', 356, 156)]
   \<and> map (\<lambda>e. (eid e, bendX e, bendY e))
       (edges (pasteClipboard (pasteClipboard (copySelected copy_editor))))
     = [(''e'', Some 200, Some 150), (''edge_iii'', Some 228, Some 178),
        (''edge_iiiiii'', Some 256, Some 206)]
   \<and> distinct (map nid (nodes (pasteClipboard (pasteClipboard (copySelected copy_editor)))))
   \<and> selectedNodeIds (pasteClipboard (pasteClipboard (copySelected copy_editor)))
       = [''node_iiii'', ''node_iiiii'']
   \<and> selectedEdgeId (pasteClipboard (pasteClipboard (copySelected copy_editor))) = []"
proof -
  let ?s2 = "pasteClipboard (pasteClipboard (copySelected copy_editor))"
  let ?cn = "clip_nodes copy_editor"
  let ?ce = "filter (both_copied ?cn) (clip_edges copy_editor)"
  have ne: "?cn \<noteq> []"
    by (simp add: copy_editor_clip sample_diagram_def)
  have c0: "idCount copy_editor = 0" "idSupply copy_editor = sample_ids"
    by (simp_all add: copy_editor_def initial_editor_def)
  from paste_twice[OF ne] obtain new1 new2 pe1 pe2 where
    n1: "new1 = pasted_nodes 28 (idSupply copy_editor) (idCount copy_editor) ?cn"
    and n2: "new2 = pasted_nodes 56 (idSupply copy_editor)
               (idCount copy_editor + length ?cn + length pe1) ?cn"
    and n: "nodes ?s2 = nodes copy_editor @ new1 @ new2"
    and e: "edges ?s2 = edges copy_editor @ pe1 @ pe2"
    and l1: "list_all2 (pasted_from 28 ?cn new1) ?ce pe1"
    and l2: "list_all2 (pasted_from 56 ?cn new2) ?ce pe2"
    and i1: "map eid pe1 = map (\<lambda>k. ''edge_'' @ idSupply copy_editor k)
          [idCount copy_editor + length ?cn ..< idCount copy_editor + length ?cn + length pe1]"
    and i2: "map eid pe2 = map (\<lambda>k. ''edge_'' @ idSupply copy_editor k)
          [idCount copy_editor + 2 * length ?cn + length pe1
             ..< idCount copy_editor + 2 * length ?cn + length pe1 + length pe2]"
    and sn: "selectedNodeIds ?s2 = map nid new2"
    and se: "selectedEdgeId ?s2 = []"
    and f: "generator_fresh copy_editor \<longrightarrow>
          distinct (map nid (new1 @ new2)) \<and> nid ` set (new1 @ new2) \<inter> nid ` set (nodes copy_editor) = {}
        \<and> distinct (map eid (pe1 @ pe2)) \<and> eid ` set (pe1 @ pe2) \<inter> eid ` set (edges copy_editor) = {}"
    by (elim exE conjE) (rule that, assumption+)
  from l1 obtain x1 where x1: "pe1 = [x1]" "bendX x1 = Some 228" "bendY x1 = Some 178"
    unfolding copy_editor_clip_edges
    by (auto dest!: list_all2_single simp: pasted_from_def sample_edge_def)
  from l2 obtain x2 where x2: "pe2 = [x2]" "bendX x2 = Some 256" "bendY x2 = Some 206"
    unfolding copy_editor_clip_edges
    by (auto dest!: list_all2_single simp: pasted_from_def sample_edge_def)
  have ids: "eid x1 = ''edge_iii''" "eid x2 = ''edge_iiiiii''"
    using i1 i2 unfolding x1 x2 c0 copy_editor_clip
    by (simp_all add: sample_diagram_def sample_ids_def numeral_eq_Suc)
  have nn: "map (\<lambda>n. (nid n, nx n, ny n)) (nodes ?s2)
     = [(''a'', 100, 100), (''b'', 300, 100), (''node_i'', 128, 128), (''node_ii'', 328, 128),
        (''node_iiii'', 156, 156), (''node_iiiii'', 356, 156)]"
    unfolding n n1 n2 x1 c0 copy_editor_clip
    by (simp add: copy_editor_def sample_diagram_def sample_node_def sample_ids_def numeral_eq_Suc)
  have ee: "map (\<lambda>e. (eid e, bendX e, bendY e)) (edges ?s2)
     = [(''e'', Some 200, Some 150), (''edge_iii'', Some 228, Some 178),
        (''edge_iiiiii'', Some 256, Some 206)]"
    unfolding e x1(1) x2(1) using x1(2,3) x2(2,3) ids
    by (simp add: copy_editor_def sample_edge_def)
  have d0: "distinct (map nid (nodes copy_editor))"
    by (simp add: copy_editor_def sample_diagram_def sample_node_def)
  have dd: "distinct (map nid (nodes ?s2))"
    unfolding n using f copy_editor_fresh d0 by (auto simp: distinct_map)
  have sel: "selectedNodeIds ?s2 = [''node_iiii'', ''node_iiiii'']"
    unfolding sn n2 x1 c0 copy_editor_clip
    by (simp add: sample_diagram_def sample_node_def sample_ids_def numeral_eq_Suc)
  show ?thesis using ne copy_editor_fresh nn ee dd sel se by (intro conjI)
qed

section \<open>Auto layout of a chain\<close>

lemma init_nodes:
  "foldl init_node st ns
     = ((\<lambda>k. if k \<in> nid ` set ns then Some 0 else fst st k),
        (\<lambda>k. if k \<in> nid ` set ns then Some [] else snd st k))"
proof (induction ns arbitrary: st)
  case Nil
  then show ?case by simp
next
  case (Cons n ns)
  show ?case
    unfolding foldl_Cons Cons.IH
    by (auto simp: init_node_def fun_eq_iff)
qed

lemma two_edges:
  assumes "length es = 2" "(\<lambda>e. (sourceId e, targetId e)) ` set es = {(a, b), (b, c)}"
    "(a, b) \<noteq> (b, c)"
  shows "\<exists>e1 e2. (es = [e1, e2] \<or> es = [e2, e1])
           \<and> sourceId e1 = a \<and> targetId e1 = b \<and> sourceId e2 = b \<and> targetId e2 = c"
proof -
  from assms(1) obtain x y where es: "es = [x, y]"
    by (cases es; cases "tl es") auto
  from assms(2) have m: "{(sourceId x, targetId x), (sourceId y, targetId y)} = {(a, b), (b, c)}"
    by (simp add: es)
  then have "((sourceId x, targetId x) = (a, b) \<and> (sourceId y, targetId y) = (b, c))
           \<or> ((sourceId x, targetId x) = (b, c) \<and> (sourceId y, targetId y) = (a, b))"
    using assms(3) by (auto simp: doubleton_eq_iff)
  then show ?thesis
  proof
    assume "(sourceId x, targetId x) = (a, b) \<and> (sourceId y, targetId y) = (b, c)"
    then show ?thesis using es by (intro exI[of _ x] exI[of _ y]) simp
  next
    assume "(sourceId x, targetId x) = (b, c) \<and> (sourceId y, targetId y) = (a, b)"
    then show ?thesis using es by (intro exI[of _ y] exI[of _ x]) simp
  qed
qed

lemma chain_init:
  assumes d: "a \<noteq> b" "a \<noteq> c" "b \<noteq> c"
    and ns: "nid ` set ns = {a, b, c}"
    and es: "es = [e1, e2] \<or> es = [e2, e1]"
      "sourceId e1 = a" "targetId e1 = b" "sourceId e2 = b" "targetId e2 = c"
  shows "layout_init ns es
     = ((\<lambda>k. if k = a then Some 0 else if k = b \<or> k = c then Some 1 else None),
        (\<lambda>k. if k = a then Some [b] else if k = b then Some [c] else if k = c then Some [] else None))"
  using es(1)
proof
  assume "es = [e1, e2]"
  then show ?thesis
    using d es(2-)
    by (auto simp: layout_init_def init_nodes ns count_edge_def num_get_def fun_eq_iff)
next
  assume "es = [e2, e1]"
  then show ?thesis
    using d es(2-)
    by (auto simp: layout_init_def init_nodes ns count_edge_def num_get_def fun_eq_iff)
qed

lemma filter_eq_single:
  "distinct xs \<Longrightarrow> a \<in> set xs \<Longrightarrow> filter (\<lambda>i. i = a) xs = [a]"
  by (induction xs) (auto simp: filter_empty_conv)

lemma chain_seeds:
  assumes d: "a \<noteq> b" "a \<noteq> c" "b \<noteq> c"
    and ns: "nid ` set ns = {a, b, c}" "distinct (map nid ns)"
  shows "layout_seeds ns (\<lambda>k. if k = a then Some 0 else if k = b \<or> k = c then Some 1 else None) = [a]"
proof -
  have "filter (\<lambda>i. num_get (\<lambda>k. if k = a then Some 0 else if k = b \<or> k = c then Some 1 else None) i = 0)
          (map nid ns) = filter (\<lambda>i. i = a) (map nid ns)"
    using ns(1) d by (intro filter_cong) (auto simp: num_get_def)
  also have "\<dots> = [a]" using ns by (intro filter_eq_single) auto
  finally show ?thesis by (simp add: layout_seeds_def Let_def)
qed

lemma chain_loop:
  assumes d: "a \<noteq> b" "a \<noteq> c" "b \<noteq> c"
  shows "\<exists>st. layout_loop
           (\<lambda>k. if k = a then Some [b] else if k = b then Some [c] else if k = c then Some [] else None)
           \<lparr>l_queue = [a], l_depth = [a \<mapsto> 0],
              l_incoming = (\<lambda>k. if k = a then Some 0 else if k = b \<or> k = c then Some 1 else None)\<rparr> 0
         = Some st \<and> l_depth st = [a \<mapsto> 0, b \<mapsto> 1, c \<mapsto> 2]"
  using d
  by (simp add: layout_loop.simps child_step_def num_get_def Let_def)

lemma three_nodes:
  assumes "length ns = 3" "nid ` set ns = {a, b, c}" "a \<noteq> b" "a \<noteq> c" "b \<noteq> c"
  shows "\<exists>n1 n2 n3. ns = [n1, n2, n3]
           \<and> ((nid n1, nid n2, nid n3) = (a, b, c) \<or> (nid n1, nid n2, nid n3) = (a, c, b)
              \<or> (nid n1, nid n2, nid n3) = (b, a, c) \<or> (nid n1, nid n2, nid n3) = (b, c, a)
              \<or> (nid n1, nid n2, nid n3) = (c, a, b) \<or> (nid n1, nid n2, nid n3) = (c, b, a))"
proof -
  from assms(1) obtain n1 n2 n3 where ns: "ns = [n1, n2, n3]"
    by (cases ns; cases "tl ns"; cases "tl (tl ns)") auto
  from assms(2) have s: "{nid n1, nid n2, nid n3} = {a, b, c}" by (simp add: ns)
  then have "nid n1 \<in> {a, b, c}" "nid n2 \<in> {a, b, c}" "nid n3 \<in> {a, b, c}"
    "a \<in> {nid n1, nid n2, nid n3}" "b \<in> {nid n1, nid n2, nid n3}" "c \<in> {nid n1, nid n2, nid n3}"
    by blast+
  then have "(nid n1, nid n2, nid n3) = (a, b, c) \<or> (nid n1, nid n2, nid n3) = (a, c, b)
              \<or> (nid n1, nid n2, nid n3) = (b, a, c) \<or> (nid n1, nid n2, nid n3) = (b, c, a)
              \<or> (nid n1, nid n2, nid n3) = (c, a, b) \<or> (nid n1, nid n2, nid n3) = (c, b, a)"
    using assms(3-5) by auto
  with ns show ?thesis by blast
qed

lemma chain_place_list:
  assumes d: "a \<noteq> b" "a \<noteq> c" "b \<noteq> c"
    and p: "(nid n1, nid n2, nid n3) = (a, b, c) \<or> (nid n1, nid n2, nid n3) = (a, c, b)
              \<or> (nid n1, nid n2, nid n3) = (b, a, c) \<or> (nid n1, nid n2, nid n3) = (b, c, a)
              \<or> (nid n1, nid n2, nid n3) = (c, a, b) \<or> (nid n1, nid n2, nid n3) = (c, b, a)"
  shows "layout_place Vertical [a \<mapsto> 0, b \<mapsto> 1, c \<mapsto> 2] [n1, n2, n3]
     = map (\<lambda>n. n\<lparr>nx := 180, ny := (if nid n = a then 120 else if nid n = b then 290 else 460)\<rparr>)
         [n1, n2, n3]"
  using p d
  by (elim disjE)
    (simp_all add: layout_place_def place_layer_def place_item_def layer_items_def num_get_def
      Let_def upt_rec[of 0] upt_rec[of "Suc 0"] upt_rec[of 1] upt_rec[of 2] enumerate_simps)

lemma fill_depth_full:
  "\<forall>n\<in>set ns. d (nid n) \<noteq> None \<Longrightarrow> foldl fill_depth d ns = d"
  by (induction ns) (auto simp: fill_depth_def)

lemma find_map_same_id:
  assumes "\<And>n. nid (f n) = nid n"
  shows "find (\<lambda>n. nid n = i) (map f ns) = map_option f (find (\<lambda>n. nid n = i) ns)"
  by (induction ns) (auto simp: assms)

lemma find_present: "i \<in> nid ` set ns \<Longrightarrow> \<exists>n. find (\<lambda>n. nid n = i) ns = Some n \<and> nid n = i"
  by (induction ns) auto

lemma commitHistory_diagram:
  "nodes (commitHistory s) = nodes s" "edges (commitHistory s) = edges s"
  by (simp_all add: commitHistory_def Let_def)

text \<open>
  Claim C8. On a diagram of exactly three nodes with distinct ids \<open>a\<close>, \<open>b\<close>, \<open>c\<close>,
  stored in any order, and exactly the two edges \<open>a \<rightarrow> b\<close> and \<open>b \<rightarrow> c\<close>, stored in
  any order, \<open>autoLayout('vertical')\<close> returns: its work loop ends. Afterwards the node
  \<open>a\<close> is at \<open>y = 120\<close>, \<open>b\<close> at \<open>y = 290\<close> and \<open>c\<close> at \<open>y = 460\<close>, so the
  \<open>y\<close> coordinates increase strictly along the chain, all three nodes are at
  \<open>x = 180\<close>, the nodes keep their ids and order in the array, and both edges have
  \<open>bendX\<close> and \<open>bendY\<close> undefined.
\<close>

theorem autoLayout_chain:
  assumes "distinct [a, b, c]" and "length (nodes s) = 3" and "nid ` set (nodes s) = {a, b, c}"
    and "length (edges s) = 2"
    and "(\<lambda>e. (sourceId e, targetId e)) ` set (edges s) = {(a, b), (b, c)}"
  shows "\<exists>s' na nb nc. autoLayout Vertical s = Some s'
           \<and> find (\<lambda>n. nid n = a) (nodes s') = Some na
           \<and> find (\<lambda>n. nid n = b) (nodes s') = Some nb
           \<and> find (\<lambda>n. nid n = c) (nodes s') = Some nc
           \<and> ny na < ny nb \<and> ny nb < ny nc \<and> nx na = nx nb \<and> nx nb = nx nc
           \<and> nx na = 180 \<and> ny na = 120 \<and> ny nb = 290 \<and> ny nc = 460
           \<and> map nid (nodes s') = map nid (nodes s)
           \<and> length (edges s') = 2
           \<and> (\<forall>e\<in>set (edges s'). bendX e = None \<and> bendY e = None)"
proof -
  have d: "a \<noteq> b" "a \<noteq> c" "b \<noteq> c" using assms(1) by auto
  from three_nodes[OF assms(2,3) d] obtain n1 n2 n3 where ns: "nodes s = [n1, n2, n3]"
    and p: "(nid n1, nid n2, nid n3) = (a, b, c) \<or> (nid n1, nid n2, nid n3) = (a, c, b)
              \<or> (nid n1, nid n2, nid n3) = (b, a, c) \<or> (nid n1, nid n2, nid n3) = (b, c, a)
              \<or> (nid n1, nid n2, nid n3) = (c, a, b) \<or> (nid n1, nid n2, nid n3) = (c, b, a)"
    by blast
  have dist: "distinct (map nid (nodes s))" using p d by (auto simp: ns)
  have "(a, b) \<noteq> (b, c)" using d by simp
  from two_edges[OF assms(4,5) this] obtain e1 e2 where
    es: "edges s = [e1, e2] \<or> edges s = [e2, e1]"
      "sourceId e1 = a" "targetId e1 = b" "sourceId e2 = b" "targetId e2 = c"
    by blast
  let ?inc = "\<lambda>k. if k = a then Some (0 :: int) else if k = b \<or> k = c then Some 1 else None"
  let ?adj = "\<lambda>k. if k = a then Some [b] else if k = b then Some [c] else if k = c then Some [] else None"
  have init: "layout_init (nodes s) (edges s) = (?inc, ?adj)"
    by (rule chain_init[OF d assms(3) es])
  have seeds: "layout_seeds (nodes s) ?inc = [a]"
    by (rule chain_seeds[OF d assms(3) dist])
  from chain_loop[OF d] obtain st where
    loop: "layout_loop ?adj \<lparr>l_queue = [a], l_depth = [a \<mapsto> 0], l_incoming = ?inc\<rparr> 0 = Some st"
    and dep: "l_depth st = [a \<mapsto> 0, b \<mapsto> 1, c \<mapsto> 2]"
    by blast
  have full: "foldl fill_depth (l_depth st) (nodes s) = [a \<mapsto> 0, b \<mapsto> 1, c \<mapsto> 2]"
    unfolding dep using assms(3) by (intro fill_depth_full) auto
  let ?f = "\<lambda>n. n\<lparr>nx := 180, ny := (if nid n = a then 120 else if nid n = b then 290 else 460)\<rparr>"
  have place: "layout_place Vertical [a \<mapsto> 0, b \<mapsto> 1, c \<mapsto> 2] (nodes s) = map ?f (nodes s)"
    unfolding ns by (rule chain_place_list[OF d p])
  define s' where "s' = commitHistory (s\<lparr>nodes := map ?f (nodes s),
                              edges := map (\<lambda>e. e\<lparr>bendX := None, bendY := None\<rparr>) (edges s)\<rparr>)"
  have ne: "nodes s \<noteq> []" using assms(2) by auto
  have al: "autoLayout Vertical s = Some s'"
    by (simp add: autoLayout_def ne init seeds loop full place s'_def Let_def)
  have n': "nodes s' = map ?f (nodes s)"
    and e': "edges s' = map (\<lambda>e. e\<lparr>bendX := None, bendY := None\<rparr>) (edges s)"
    by (simp_all add: s'_def commitHistory_diagram)
  obtain na where na: "find (\<lambda>n. nid n = a) (nodes s) = Some na" "nid na = a"
    using find_present[of a "nodes s"] assms(3) by auto
  obtain nb where nb: "find (\<lambda>n. nid n = b) (nodes s) = Some nb" "nid nb = b"
    using find_present[of b "nodes s"] assms(3) by auto
  obtain nc where nc: "find (\<lambda>n. nid n = c) (nodes s) = Some nc" "nid nc = c"
    using find_present[of c "nodes s"] assms(3) by auto
  have fa: "find (\<lambda>n. nid n = a) (nodes s') = Some (?f na)"
    and fb: "find (\<lambda>n. nid n = b) (nodes s') = Some (?f nb)"
    and fc: "find (\<lambda>n. nid n = c) (nodes s') = Some (?f nc)"
    unfolding n' by (simp_all add: find_map_same_id na nb nc)
  have ids: "map nid (nodes s') = map nid (nodes s)" unfolding n' by simp
  have bends: "\<forall>e\<in>set (edges s'). bendX e = None \<and> bendY e = None" unfolding e' by simp
  have le: "length (edges s') = 2" unfolding e' using assms(4) by simp
  show ?thesis
    apply (rule exI[of _ s'], rule exI[of _ "?f na"], rule exI[of _ "?f nb"], rule exI[of _ "?f nc"])
    using al fa fb fc ids bends le na(2) nb(2) nc(2) d
    by (intro conjI) simp_all
qed

lemma chain_editor_nodes: "length (nodes chain_editor) = 3"
  "nid ` set (nodes chain_editor) = {''a'', ''b'', ''c''}"
  by (auto simp: chain_editor_def initial_editor_def sample_node_def)

lemma chain_editor_edges: "length (edges chain_editor) = 2"
  "(\<lambda>e. (sourceId e, targetId e)) ` set (edges chain_editor) = {(''a'', ''b''), (''b'', ''c'')}"
  by (auto simp: chain_editor_def initial_editor_def sample_edge_def)

theorem autoLayout_chain_witness:
  "distinct [''a'', ''b'', ''c''] \<and> length (nodes chain_editor) = 3
   \<and> nid ` set (nodes chain_editor) = {''a'', ''b'', ''c''}
   \<and> length (edges chain_editor) = 2
   \<and> (\<lambda>e. (sourceId e, targetId e)) ` set (edges chain_editor) = {(''a'', ''b''), (''b'', ''c'')}
   \<and> (\<exists>s' na nb nc. autoLayout Vertical chain_editor = Some s'
         \<and> find (\<lambda>n. nid n = ''a'') (nodes s') = Some na
         \<and> find (\<lambda>n. nid n = ''b'') (nodes s') = Some nb
         \<and> find (\<lambda>n. nid n = ''c'') (nodes s') = Some nc
         \<and> ny na = 120 \<and> ny nb = 290 \<and> ny nc = 460
         \<and> nx na = 180 \<and> nx nb = 180 \<and> nx nc = 180
         \<and> map nid (nodes s') = [''c'', ''a'', ''b'']
         \<and> (\<forall>e\<in>set (edges s'). bendX e = None \<and> bendY e = None))"
proof -
  have d: "distinct [''a'', ''b'', ''c'']" by simp
  have ids: "map nid (nodes chain_editor) = [''c'', ''a'', ''b'']"
    by (simp add: chain_editor_def initial_editor_def sample_node_def)
  from autoLayout_chain[OF d chain_editor_nodes chain_editor_edges]
  obtain s' na nb nc where r: "autoLayout Vertical chain_editor = Some s'"
    "find (\<lambda>n. nid n = ''a'') (nodes s') = Some na"
    "find (\<lambda>n. nid n = ''b'') (nodes s') = Some nb"
    "find (\<lambda>n. nid n = ''c'') (nodes s') = Some nc"
    "nx na = nx nb" "nx nb = nx nc" "nx na = 180" "ny na = 120" "ny nb = 290" "ny nc = 460"
    "map nid (nodes s') = map nid (nodes chain_editor)"
    "\<forall>e\<in>set (edges s'). bendX e = None \<and> bendY e = None"
    by (elim exE conjE) (rule that, assumption+)
  have x: "nx nb = 180" "nx nc = 180" using r(5,6,7) by simp_all
  show ?thesis
    using d chain_editor_nodes chain_editor_edges r(1,2,3,4,7,8,9,10,12) x r(11)[unfolded ids]
    by (intro conjI exI[of _ s'] exI[of _ na] exI[of _ nb] exI[of _ nc])
qed

section \<open>The selection invariant\<close>

lemma commitHistory_selection:
  "selectedNodeIds (commitHistory s) = selectedNodeIds s"
  "selectedNodeId (commitHistory s) = selectedNodeId s"
  "selectedEdgeId (commitHistory s) = selectedEdgeId s"
  by (simp_all add: commitHistory_def Let_def)

lemma xor_commitHistory: "xor_selection (commitHistory s) = xor_selection s"
  by (simp add: xor_selection_def commitHistory_selection)

lemma xor_setSingleNodeSelection: "xor_selection (setSingleNodeSelection i s)"
  by (simp add: xor_selection_def setSingleNodeSelection_def)

lemma xor_setNodeSelection: "xor_selection (setNodeSelection ids s)"
  by (simp add: xor_selection_def setNodeSelection_def)

lemma xor_toggleNodeSelection: "xor_selection (toggleNodeSelection i s)"
  by (simp add: toggleNodeSelection_def xor_setNodeSelection)

lemma xor_select_edge_at: "xor_selection (select_edge_at i s)"
  by (simp add: xor_selection_def select_edge_at_def Let_def)

lemma xor_createNode: "xor_selection (createNode k x y s)"
  by (simp add: createNode_def Let_def xor_commitHistory xor_setSingleNodeSelection
      split: prod.splits)

lemma xor_applySnapshot:
  "xor_selection s \<Longrightarrow> applySnapshot snap s = Inr s' \<Longrightarrow> xor_selection s'"
  by (auto simp: applySnapshot_def xor_selection_def split: if_splits option.splits)

lemma xor_undo: "xor_selection s \<Longrightarrow> undo s = Inr s' \<Longrightarrow> xor_selection s'"
  by (auto simp: undo_def Let_def xor_selection_def split: if_splits
      dest!: xor_applySnapshot[rotated])

lemma xor_redo: "xor_selection s \<Longrightarrow> redo s = Inr s' \<Longrightarrow> xor_selection s'"
  by (auto simp: redo_def Let_def xor_selection_def split: if_splits
      dest!: xor_applySnapshot[rotated])

lemma xor_deleteSelected: "xor_selection s \<Longrightarrow> xor_selection (deleteSelected s)"
  by (auto simp: deleteSelected_def Let_def xor_selection_def commitHistory_selection
      split: option.splits)

lemma xor_copySelected: "xor_selection s \<Longrightarrow> xor_selection (copySelected s)"
  by (auto simp: copySelected_def Let_def xor_selection_def)

lemma xor_pasteClipboard: "xor_selection s \<Longrightarrow> xor_selection (pasteClipboard s)"
  by (auto simp: pasteClipboard_def Let_def xor_selection_def commitHistory_selection
      split: option.splits prod.splits)

lemma xor_onMouseUp: "xor_selection s \<Longrightarrow> xor_selection (onMouseUp s)"
  using xor_setNodeSelection
  by (auto simp: onMouseUp_def Let_def xor_selection_def commitHistory_selection)

lemma xor_onMouseMove:
  "xor_selection s \<Longrightarrow> onMouseMove x y s = Inr s' \<Longrightarrow> xor_selection s'"
  by (auto simp: onMouseMove_def Let_def xor_selection_def split: sum.splits if_splits option.splits)

lemma xor_autoLayout:
  "xor_selection s \<Longrightarrow> autoLayout dir s = Some s' \<Longrightarrow> xor_selection s'"
  by (auto simp: autoLayout_def Let_def xor_selection_def commitHistory_selection
      split: if_splits option.splits)

lemma xor_clearFlow: "xor_selection s \<Longrightarrow> xor_selection (clearFlow c s)"
  by (simp add: clearFlow_def xor_commitHistory) (simp add: xor_selection_def)

lemma xor_resetSelectedEdgeBend: "xor_selection s \<Longrightarrow> xor_selection (resetSelectedEdgeBend s)"
  by (auto simp: resetSelectedEdgeBend_def xor_selection_def commitHistory_selection
      split: option.splits)

lemma xor_importJson: "xor_selection s \<Longrightarrow> xor_selection (importJson parsed s)"
  by (auto simp: importJson_def xor_selection_def commitHistory_selection
      split: option.splits prod.splits)

lemma xor_loadTemplate: "xor_selection s \<Longrightarrow> xor_selection (loadTemplate t c s)"
  by (auto simp: loadTemplate_def xor_selection_def commitHistory_selection)

lemma xor_watch_activeProject: "xor_selection s \<Longrightarrow> xor_selection (watch_activeProject proj s)"
  by (auto simp: watch_activeProject_def xor_selection_def resetHistory_def split: option.splits)

lemma xor_onMouseDown:
  assumes "xor_selection s" and "onMouseDown x y sh s = Inr s'"
  shows "xor_selection s'"
proof -
  have a: "xor_selection (select_edge_at i s\<lparr>draggingBendEdgeId := v, draggingMoved := w\<rparr>)" for i v w
    using xor_select_edge_at[of i s] by (simp add: xor_selection_def)
  have b: "xor_selection (setSingleNodeSelection i (s\<lparr>connectFromId := i\<rparr>))" for i
    by (rule xor_setSingleNodeSelection)
  have c: "xor_selection ((createNode k u v s)\<lparr>selectedTool := Select\<rparr>)" for k u v
    using xor_createNode[of k u v s] by (simp add: xor_selection_def)
  show ?thesis
    using assms a b c xor_select_edge_at[of _ s] xor_toggleNodeSelection[of _ s]
    by (auto simp: onMouseDown_def Let_def generateId_def xor_commitHistory
        split: sum.splits option.splits if_splits tool.splits)
       (auto simp: xor_selection_def setSingleNodeSelection_def)
qed

lemma xor_onKeyDown:
  assumes "xor_selection s" and "onKeyDown c m sh key s = Inr s'"
  shows "xor_selection s'"
  using assms xor_undo[of s s'] xor_redo[of s s'] xor_setNodeSelection[of _ s]
    xor_copySelected[of s] xor_pasteClipboard[of s] xor_deleteSelected[of s]
  by (auto simp: onKeyDown_def Let_def split: if_splits)

lemma xor_fire:
  assumes "xor_selection s" and "fire ev s = Some s'"
  shows "xor_selection s'"
proof (cases ev)
  case (MouseDown x y sh)
  then show ?thesis using assms xor_onMouseDown[of s x y sh s']
    by (auto simp: returned_def split: sum.splits)
next
  case (MouseMove x y)
  then show ?thesis using assms xor_onMouseMove[of s x y s']
    by (auto simp: returned_def split: sum.splits)
next
  case MouseUp
  then show ?thesis using assms xor_onMouseUp[of s] by auto
next
  case (KeyDown c m sh key)
  then show ?thesis using assms xor_onKeyDown[of s c m sh key s']
    by (auto simp: returned_def split: sum.splits)
next
  case (ClickTool t)
  then show ?thesis using assms by (auto simp: xor_selection_def)
next
  case ClickUndo
  then show ?thesis using assms xor_undo[of s s'] by (auto simp: returned_def split: sum.splits)
next
  case ClickRedo
  then show ?thesis using assms xor_redo[of s s'] by (auto simp: returned_def split: sum.splits)
next
  case ClickDelete
  then show ?thesis using assms xor_deleteSelected[of s] by auto
next
  case (ClickClear c)
  then show ?thesis using assms xor_clearFlow[of s c] by auto
next
  case (ClickAutoLayout d)
  then show ?thesis using assms xor_autoLayout[of s d s'] by auto
next
  case (ClickTemplate t c)
  then show ?thesis using assms xor_loadTemplate[of s t c] by auto
next
  case ClickResetBend
  then show ?thesis using assms xor_resetSelectedEdgeBend[of s] by auto
next
  case ChangeEdgeStyle
  then show ?thesis using assms by (auto simp: xor_commitHistory)
next
  case (FileImported p)
  then show ?thesis using assms xor_importJson[of s p] by auto
next
  case (ProjectChanged p)
  then show ?thesis using assms xor_watch_activeProject[of s p] by auto
qed

lemma xor_run:
  "xor_selection s \<Longrightarrow> run evs s = Some s' \<Longrightarrow> xor_selection s'"
proof (induction evs arbitrary: s)
  case Nil
  then show ?case by simp
next
  case (Cons ev evs)
  then show ?case by (auto split: option.splits dest: xor_fire)
qed

lemma selection_down:
  "onMouseDown 200 100 False selection_editor
   = Inr (selection_editor\<lparr>edges := [ensureEdgeDefaults (sample_edge ''e'' ''a'' ''b'')],
            selectedEdgeId := ''e'', selectedNodeId := [], selectedNodeIds := [],
            draggingBendEdgeId := ''e'', draggingMoved := False\<rparr>)"
proof -
  have t: "toCanvasPoint selection_editor 200 100 = Inr \<lparr>px = 200, py = 100\<rparr>"
    by (simp add: toCanvasPoint_def selection_editor_def initial_editor_def)
  have g: "getBendHandleEdgeAt selection_editor 200 100 = Inr (Some 0)"
    by (simp add: getBendHandleEdgeAt_def selection_editor_def initial_editor_def
        sample_diagram_def[THEN arg_cong, of snap_edges] sample_path hypot_0_right Let_def)
  show ?thesis
    by (simp add: onMouseDown_def t g select_edge_at_def Let_def)
       (simp add: selection_editor_def initial_editor_def sample_diagram_def ensureEdgeDefaults_def
        sample_edge_def)
qed


lemma selection_run:
  "run [MouseDown 200 100 False, MouseUp] selection_editor = Some selected_edge_editor"
  by (simp add: selection_down returned_def onMouseUp_def selected_edge_editor_def)
     (simp add: selection_editor_def initial_editor_def)

lemma lower_A: "toLowerCase ''A'' = ''a''"
  by code_simp

lemma selection_run2:
  "run [KeyDown True False False ''A''] selected_edge_editor
   = Some (selected_edge_editor\<lparr>selectedNodeIds := [''a'', ''b''], selectedNodeId := ''a'',
                                  selectedEdgeId := []\<rparr>)"
  by (simp add: returned_def onKeyDown_def lower_A setNodeSelection_def
      selected_edge_editor_def selection_editor_def initial_editor_def sample_diagram_def
      sample_node_def)

text \<open>
  Claim C9. The selection invariant says that the selected edge id is the empty string or
  both the list of selected node ids is empty and the active node id is the empty string.
  Every run of events whose handlers all return keeps it: mouse down (selecting a node or an
  edge, grabbing a bend handle, toggling with shift, connecting, placing a node, starting a
  marquee), mouse move, mouse up (which resolves the marquee), the keyboard shortcuts (undo,
  redo, select all, copy, paste, delete), the toolbar buttons (tool, undo, redo, delete,
  clear, auto layout, template, reset bend, edge style), a file import and a change of the
  active project. So the selected node ids and the selected edge id are never both
  non-empty. Selecting an edge empties the node selection, and each of the three functions
  that set a node selection empties the edge selection.
\<close>

theorem selection_xor_invariant:
  assumes "xor_selection s" and "run evs s = Some s'"
  shows "xor_selection s'
         \<and> (selectedEdgeId s' = [] \<or> selectedNodeIds s' = [])
         \<and> selectedNodeIds (select_edge_at i t) = [] \<and> selectedNodeId (select_edge_at i t) = []
         \<and> selectedEdgeId (setSingleNodeSelection j t) = []
         \<and> selectedEdgeId (setNodeSelection ids t) = []
         \<and> selectedEdgeId (toggleNodeSelection j t) = []"
proof -
  have x: "xor_selection s'" using assms by (rule xor_run)
  then have w: "selectedEdgeId s' = [] \<or> selectedNodeIds s' = []"
    by (auto simp: xor_selection_def)
  have e: "selectedNodeIds (select_edge_at i t) = []" "selectedNodeId (select_edge_at i t) = []"
    by (simp_all add: select_edge_at_def Let_def)
  have n: "selectedEdgeId (setSingleNodeSelection j t) = []"
    "selectedEdgeId (setNodeSelection ids t) = []"
    "selectedEdgeId (toggleNodeSelection j t) = []"
    by (simp_all add: setSingleNodeSelection_def setNodeSelection_def toggleNodeSelection_def)
  show ?thesis using x w e n by (intro conjI)
qed

theorem selection_xor_invariant_witness:
  "xor_selection selection_editor
   \<and> selectedNodeIds selection_editor = [''a'', ''b'']
   \<and> run [MouseDown 200 100 False, MouseUp] selection_editor = Some selected_edge_editor
   \<and> xor_selection selected_edge_editor
   \<and> selectedEdgeId selected_edge_editor = ''e''
   \<and> selectedNodeIds selected_edge_editor = []"
proof -
  have x: "xor_selection selection_editor"
    by (simp add: xor_selection_def selection_editor_def initial_editor_def)
  have s: "selectedNodeIds selection_editor = [''a'', ''b'']"
    by (simp add: selection_editor_def)
  have e: "selectedEdgeId selected_edge_editor = ''e''"
    by (simp add: selected_edge_editor_def)
  have r: "xor_selection selected_edge_editor
           \<and> (selectedEdgeId selected_edge_editor = [] \<or> selectedNodeIds selected_edge_editor = [])"
    using selection_xor_invariant[OF x selection_run, of 0 selection_editor "[]" "[]"] by blast
  then have n: "selectedNodeIds selected_edge_editor = []" using e by auto
  show ?thesis using x s selection_run r e n by (intro conjI) simp_all
qed

end
